theory Spec2Isabelle
  imports Main "HOL-Library.Word" "HOL-Library.Sublist" "HOL-Library.Multiset"
begin

section \<open>Status values\<close>

text \<open>
  \<open>absl::Status\<close> as the code uses it: \<open>OkStatus()\<close> and the \<open>InternalError\<close> family, which
  carries the formatted message. A \<open>StatusOr<T>\<close> is \<open>Status + T\<close> with \<open>Inl\<close> the error.
  \<open>CheckFailure\<close> stands for a process abort (a failed \<open>CHECK\<close>, an out-of-range operand
  index, a dangling instruction pointer); the code never returns it as a status.
\<close>

datatype Status = OkStatus | InternalError string | CheckFailure

section \<open>Autotune result selection (stream_executor_util.cc)\<close>

subsection \<open>Candidate results\<close>

text \<open>
  Modelled from the spec: the \<open>AutotuneResult\<close> protocol message is declared outside the
  files at hand; the fields the selector reads are the elapsed duration (\<open>run_time\<close>, a
  \<open>google.protobuf.Duration\<close> of seconds and nanoseconds), the scratch-memory byte count and
  the optional failure with its kind and message.
\<close>

record DurationProto =
  seconds :: int
  nanos :: int

datatype FailureKind = UNKNOWN | REDZONE_MODIFIED | WRONG_RESULT | DISQUALIFIED

record AutotuneFailure =
  kind :: FailureKind
  msg :: string

record AutotuneResult =
  scratch_bytes :: int
  run_time :: DurationProto
  failure :: "AutotuneFailure option"

record HloModuleConfig =
  xla_gpu_deterministic_ops :: bool

text \<open>
  \<open>absl::Duration\<close> values are counted in whole nanoseconds, as unbounded integers; the
  saturation of \<open>absl::Duration\<close> arithmetic at its infinite values is not modelled.
\<close>

definition FromDurationProto :: "DurationProto \<Rightarrow> int" where
  "FromDurationProto d = seconds d * 1000000000 + nanos d"

definition kMeasurementError :: int where
  "kMeasurementError = 2000"

definition has_failure :: "AutotuneResult \<Rightarrow> bool" where
  "has_failure r = (failure r \<noteq> None)"

text \<open>Reading \<open>failure()\<close> of a message without one yields the default instance.\<close>

definition failure_kind :: "AutotuneResult \<Rightarrow> FailureKind" where
  "failure_kind r = (case failure r of None \<Rightarrow> UNKNOWN | Some f \<Rightarrow> kind f)"

definition failure_msg :: "AutotuneResult \<Rightarrow> string" where
  "failure_msg r = (case failure r of None \<Rightarrow> [] | Some f \<Rightarrow> msg f)"

subsection \<open>The selector\<close>

text \<open>
  \<open>RequireDeterminism\<close>: the environment flag is read once and cached in a function-local
  static; its cached value is the first argument. Of \<open>HloModuleConfig\<close>, declared outside
  the files at hand, only the debug option \<open>xla_gpu_deterministic_ops\<close> is read.
\<close>

definition RequireDeterminism :: "bool \<Rightarrow> HloModuleConfig \<Rightarrow> bool" where
  "RequireDeterminism require_cudnn_determinism config =
     (require_cudnn_determinism \<or> xla_gpu_deterministic_ops config)"

definition keep_result :: "AutotuneResult \<Rightarrow> bool" where
  "keep_result r = (\<not> has_failure r \<or> failure_kind r = WRONG_RESULT)"

definition KeepNonFailures :: "AutotuneResult list \<Rightarrow> AutotuneResult list" where
  "KeepNonFailures profile_results = filter keep_result profile_results"

definition AllAlgorithmsFailedInternalError ::
  "string option \<Rightarrow> AutotuneResult list \<Rightarrow> Status" where
  "AllAlgorithmsFailedInternalError instr_str profile_results =
     InternalError
       ((case instr_str of
           Some s \<Rightarrow> ''All algorithms tried for '' @ s @
             '' failed. Falling back to default algorithm.  Per-algorithm errors:''
         | None \<Rightarrow> ''All algorithms failed. Falling back to the default algorithm. '' @
             ''Per-algorithm errors:'')
        @ concat (map (\<lambda>result. [CHR 0x0A] @ ''  '' @ failure_msg result) profile_results))"

definition NoAlgorithmSuppliedInternalError :: "string option \<Rightarrow> Status" where
  "NoAlgorithmSuppliedInternalError instr_str =
     InternalError
       (case instr_str of
          Some s \<Rightarrow> ''The are no algorithm candiates for computing: '' @ [CHR 0x0A] @ ''  '' @ s @
            [CHR 0x0A] @ ''This likely means that the instruction shape is not supported by '' @
            ''the target GPU library.''
        | None \<Rightarrow> ''The are no algorithm candiates for computing the instruction.'' @ [CHR 0x0A] @
            ''This likely means that the instruction shape is not supported by '' @
            ''the target GPU library.'')"

text \<open>
  \<open>absl::c_sort\<close> is \<open>std::sort\<close>: it leaves a permutation of its input in which no element
  is smaller (by the comparator) than an earlier one, and it is not stable. The selector
  takes the sorting routine as its first argument; \<open>c_sort_contract\<close> is what the C++
  standard promises of it on one input.
\<close>

type_synonym 'a c_sort = "('a \<Rightarrow> 'a \<Rightarrow> bool) \<Rightarrow> 'a list \<Rightarrow> 'a list"

definition c_sort_contract :: "'a c_sort \<Rightarrow> ('a \<Rightarrow> 'a \<Rightarrow> bool) \<Rightarrow> 'a list \<Rightarrow> bool" where
  "c_sort_contract srt cmp xs =
     (mset (srt cmp xs) = mset xs \<and> sorted_wrt (\<lambda>a b. \<not> cmp b a) (srt cmp xs))"

definition run_time_less :: "AutotuneResult \<Rightarrow> AutotuneResult \<Rightarrow> bool" where
  "run_time_less lhs rhs =
     (FromDurationProto (run_time lhs) < FromDurationProto (run_time rhs))"

definition SortAutotuningResultsByRunTime ::
  "AutotuneResult c_sort \<Rightarrow> AutotuneResult list \<Rightarrow> AutotuneResult list" where
  "SortAutotuningResultsByRunTime srt results = srt run_time_less results"

text \<open>
  \<open>TopResultsWithinMeasurementError\<close> reads \<open>front()\<close> of its argument, which is undefined
  on an empty vector: \<open>None\<close>. Otherwise the span runs from the first element up to the
  first one whose run time exceeds the limit, and to the end of the vector when there is
  none.
\<close>

definition TopResultsWithinMeasurementError :: "AutotuneResult list \<Rightarrow> AutotuneResult list option" where
  "TopResultsWithinMeasurementError results_sorted_by_runtime =
     (case results_sorted_by_runtime of
        [] \<Rightarrow> None
      | r # _ \<Rightarrow>
          let min_time = FromDurationProto (run_time r);
              limit_time = min_time + kMeasurementError
          in Some (takeWhile (\<lambda>x. \<not> FromDurationProto (run_time x) > limit_time)
                     results_sorted_by_runtime))"

text \<open>
  \<open>std::min_element\<close>: the first element that no other element is smaller than; on an
  empty range it returns the end iterator, whose dereference is undefined: \<open>None\<close>.
\<close>

fun min_element_from :: "('a \<Rightarrow> 'a \<Rightarrow> bool) \<Rightarrow> 'a \<Rightarrow> 'a list \<Rightarrow> 'a" where
  "min_element_from cmp smallest [] = smallest"
| "min_element_from cmp smallest (x # xs) =
     min_element_from cmp (if cmp x smallest then x else smallest) xs"

definition c_min_element :: "('a \<Rightarrow> 'a \<Rightarrow> bool) \<Rightarrow> 'a list \<Rightarrow> 'a option" where
  "c_min_element cmp xs = (case xs of [] \<Rightarrow> None | x # rest \<Rightarrow> Some (min_element_from cmp x rest))"

definition scratch_bytes_less :: "AutotuneResult \<Rightarrow> AutotuneResult \<Rightarrow> bool" where
  "scratch_bytes_less lhs rhs = (scratch_bytes lhs < scratch_bytes rhs)"

text \<open>
  \<open>PickBestResult\<close>. The outer \<open>option\<close> is \<open>None\<close> exactly where the C++ would run into
  undefined behaviour (an empty vector after sorting).
\<close>

definition PickBestResult ::
  "AutotuneResult c_sort \<Rightarrow> bool \<Rightarrow> AutotuneResult list \<Rightarrow> string option \<Rightarrow> HloModuleConfig
     \<Rightarrow> (Status + AutotuneResult) option" where
  "PickBestResult srt require_cudnn_determinism profile_results instr_str hlo_module_config =
     (if profile_results = [] then Some (Inl (NoAlgorithmSuppliedInternalError instr_str))
      else
        let filtered_results = KeepNonFailures profile_results in
        if filtered_results = [] then
          Some (Inl (AllAlgorithmsFailedInternalError instr_str profile_results))
        else if RequireDeterminism require_cudnn_determinism hlo_module_config then
          Some (Inr (hd filtered_results))
        else
          (case TopResultsWithinMeasurementError
                  (SortAutotuningResultsByRunTime srt filtered_results) of
             None \<Rightarrow> None
           | Some top_within_error \<Rightarrow>
               map_option Inr (c_min_element scratch_bytes_less top_within_error)))"


text \<open>
  A sorting routine that meets \<open>c_sort_contract\<close>, for running the selector on concrete
  candidate lists.
\<close>

fun insert_sorted :: "('a \<Rightarrow> 'a \<Rightarrow> bool) \<Rightarrow> 'a \<Rightarrow> 'a list \<Rightarrow> 'a list" where
  "insert_sorted cmp x [] = [x]"
| "insert_sorted cmp x (y # ys) = (if cmp x y then x # y # ys else y # insert_sorted cmp x ys)"

definition insertion_sort :: "'a c_sort" where
  "insertion_sort cmp xs = foldr (insert_sorted cmp) xs []"

text \<open>The candidate list of the window and tie-break scenario: run times in nanoseconds.\<close>

definition candidate_10us :: AutotuneResult where
  "candidate_10us =
     \<lparr>scratch_bytes = 100, run_time = \<lparr>seconds = 0, nanos = 10000\<rparr>, failure = None\<rparr>"

definition candidate_10_5us :: AutotuneResult where
  "candidate_10_5us =
     \<lparr>scratch_bytes = 10, run_time = \<lparr>seconds = 0, nanos = 10500\<rparr>, failure = None\<rparr>"

definition candidate_11us :: AutotuneResult where
  "candidate_11us =
     \<lparr>scratch_bytes = 5, run_time = \<lparr>seconds = 0, nanos = 11000\<rparr>, failure = None\<rparr>"

definition candidate_50us :: AutotuneResult where
  "candidate_50us =
     \<lparr>scratch_bytes = 1, run_time = \<lparr>seconds = 0, nanos = 50000\<rparr>, failure = None\<rparr>"

definition window_example :: "AutotuneResult list" where
  "window_example = [candidate_10us, candidate_10_5us, candidate_11us, candidate_50us]"

text \<open>Candidate lists with failures: all dropped by the filter, and mixed.\<close>

definition failed_examples :: "AutotuneResult list" where
  "failed_examples =
     [\<lparr>scratch_bytes = 0, run_time = \<lparr>seconds = 0, nanos = 10000\<rparr>,
        failure = Some \<lparr>kind = UNKNOWN, msg = ''oom''\<rparr>\<rparr>,
      \<lparr>scratch_bytes = 0, run_time = \<lparr>seconds = 0, nanos = 20000\<rparr>,
        failure = Some \<lparr>kind = REDZONE_MODIFIED, msg = ''redzone''\<rparr>\<rparr>]"

definition mixed_examples :: "AutotuneResult list" where
  "mixed_examples =
     [\<lparr>scratch_bytes = 0, run_time = \<lparr>seconds = 0, nanos = 1000\<rparr>,
        failure = Some \<lparr>kind = DISQUALIFIED, msg = ''unsupported''\<rparr>\<rparr>,
      \<lparr>scratch_bytes = 64, run_time = \<lparr>seconds = 0, nanos = 50000\<rparr>,
        failure = Some \<lparr>kind = WRONG_RESULT, msg = ''mismatch''\<rparr>\<rparr>,
      \<lparr>scratch_bytes = 0, run_time = \<lparr>seconds = 0, nanos = 10000\<rparr>, failure = None\<rparr>]"

section \<open>The per-device mutex registry (stream_executor_util.cc)\<close>

text \<open>
  \<open>GetGpuMutex\<close> keeps a function-local static \<open>std::map\<close> from (platform pointer, device
  ordinal) to \<open>absl::Mutex\<close>, and returns a reference to the mutex inside the map node.
  A reference is the address of that object; the registry is the list of the map's nodes,
  each with its key and the address of its mutex. The global lock \<open>mu\<close> is held for the
  whole body, so calls run one after the other and a call is a function from the registry
  before to the registry after.
\<close>

type_synonym Platform_ptr = nat
type_synonym Mutex_ref = nat

record StreamExecutor =
  platform :: Platform_ptr
  device_ordinal :: "64 word"

type_synonym GpuMutexes = "((Platform_ptr \<times> 64 word) \<times> Mutex_ref) list"

text \<open>
  A node allocated by \<open>emplace\<close> lives at an address that no live node has; nodes are never
  freed, so the next address above all nodes of the map is such an address.
\<close>

definition new_node :: "GpuMutexes \<Rightarrow> Mutex_ref" where
  "new_node mutexes = Suc (fold max (map snd mutexes) 0)"

text \<open>
  \<open>std::map::emplace\<close>: no insertion when the key is present; the returned iterator points
  to the node with that key.
\<close>

definition emplace ::
  "Platform_ptr \<times> 64 word \<Rightarrow> GpuMutexes \<Rightarrow> ((Platform_ptr \<times> 64 word) \<times> Mutex_ref) \<times> GpuMutexes" where
  "emplace key mutexes =
     (case map_of mutexes key of
        Some m \<Rightarrow> ((key, m), mutexes)
      | None \<Rightarrow> let m = new_node mutexes in ((key, m), mutexes @ [(key, m)]))"

definition GetGpuMutex :: "StreamExecutor \<Rightarrow> GpuMutexes \<Rightarrow> Mutex_ref \<times> GpuMutexes" where
  "GetGpuMutex stream_exec mutexes =
     (let (it, mutexes') = emplace (platform stream_exec, device_ordinal stream_exec) mutexes
      in (snd it, mutexes'))"

text \<open>The registry after a sequence of calls, starting from the empty static map.\<close>

fun GetGpuMutex_calls :: "StreamExecutor list \<Rightarrow> GpuMutexes \<Rightarrow> GpuMutexes" where
  "GetGpuMutex_calls [] mutexes = mutexes"
| "GetGpuMutex_calls (stream_exec # rest) mutexes =
     GetGpuMutex_calls rest (snd (GetGpuMutex stream_exec mutexes))"

text \<open>
  The invariant of the registry: one node per key, and no two nodes at the same address.
\<close>

definition registry_inv :: "GpuMutexes \<Rightarrow> bool" where
  "registry_inv mutexes = (distinct (map fst mutexes) \<and> distinct (map snd mutexes))"

section \<open>Thunks (thunk.h)\<close>

datatype Kind =
    kCholesky | kConditional | kConvolution | kConvolutionReorder | kCopy | kCommandBuffer
  | kCubSort | kCublasLtMatmul | kCustomCall | kCustomKernel | kFft | kFor | kGemm | kInfeed
  | kKernel | kMemset32BitValue | kMemzero | kNcclAllGather | kNcclAllGatherStart
  | kNcclAllGatherDone | kNcclAllReduce | kNcclAllReduceStart | kNcclAllReduceDone
  | kNcclCollectivePermute | kNcclCollectivePermuteStart | kNcclCollectivePermuteDone
  | kNcclReduceScatter | kNcclReduceScatterStart | kNcclReduceScatterDone | kNcclAllToAll
  | kNcclAllToAllStart | kNcclAllToAllDone | kNcclSend | kNcclRecv | kNorm | kOutfeed
  | kPartitionId | kRecv | kRecvDone | kReplicaId | kSequential | kSend | kSendDone
  | kTriangularSolve | kWhile | kFusedMHA



















section \<open>The host memory transfer asyncifier (host_memory_transfer_asyncifier.cc)\<close>

subsection \<open>Shapes, instructions, computations\<close>

text \<open>
  Modelled from the spec: \<open>Shape\<close>, \<open>Layout\<close>, \<open>HloInstruction\<close>, \<open>HloComputation\<close> and
  \<open>HloModule\<close> are declared outside the files at hand. The spec gives a program graph of
  instruction nodes with operand lists and shapes, each shape optionally carrying a
  resolved layout with a memory-space tag, nodes addressed by stable indices. An array
  shape has an element type, dimensions and an optional layout; a tuple shape has no
  layout of its own. \<open>memory_space\<close> is an \<open>int64_t\<close>.
\<close>

datatype PrimitiveType = PRED | S8 | S16 | S32 | S64 | U8 | U16 | U32 | U64 | F16 | F32 | F64 | BF16

record Layout =
  memory_space :: "64 word"

datatype Shape = ArrayShape PrimitiveType "int list" "Layout option" | TupleShape "Shape list"

definition kDefaultMemorySpace :: "64 word" where
  "kDefaultMemorySpace = 0"

fun layout :: "Shape \<Rightarrow> Layout option" where
  "layout (ArrayShape element_type dimensions l) = l"
| "layout (TupleShape tuple_shapes) = None"

definition has_layout :: "Shape \<Rightarrow> bool" where
  "has_layout s = (layout s \<noteq> None)"

definition MakeScalarShape :: "PrimitiveType \<Rightarrow> Shape" where
  "MakeScalarShape element_type =
     ArrayShape element_type [] (Some \<lparr>memory_space = kDefaultMemorySpace\<rparr>)"

definition MakeTupleShape :: "Shape list \<Rightarrow> Shape" where
  "MakeTupleShape shapes = TupleShape shapes"

text \<open>
  The opcodes the pass tells apart, and those of the nodes it creates; every other opcode
  takes the visitor's default action.
\<close>

datatype HloOpcode =
    kCopy | kCopyStart | kCopyDone | kDynamicSlice | kDynamicUpdateSlice
  | kAsyncStart | kAsyncDone | kParameter | kConstant | kAdd | kTuple | kGetTupleElement
  | kOtherOpcode string

fun HloOpcodeString :: "HloOpcode \<Rightarrow> string" where
  "HloOpcodeString kCopy = ''copy''"
| "HloOpcodeString kCopyStart = ''copy-start''"
| "HloOpcodeString kCopyDone = ''copy-done''"
| "HloOpcodeString kDynamicSlice = ''dynamic-slice''"
| "HloOpcodeString kDynamicUpdateSlice = ''dynamic-update-slice''"
| "HloOpcodeString kAsyncStart = ''async-start''"
| "HloOpcodeString kAsyncDone = ''async-done''"
| "HloOpcodeString kParameter = ''parameter''"
| "HloOpcodeString kConstant = ''constant''"
| "HloOpcodeString kAdd = ''add''"
| "HloOpcodeString kTuple = ''tuple''"
| "HloOpcodeString kGetTupleElement = ''get-tuple-element''"
| "HloOpcodeString (kOtherOpcode s) = s"

type_synonym InstrId = nat

record HloInstruction =
  name :: string
  opcode :: HloOpcode
  shape :: Shape
  operands :: "InstrId list"

record HloComputation =
  instructions :: "(InstrId \<times> HloInstruction) list"
  root_instruction :: InstrId
  IsFusionComputation :: bool

record HloModule =
  computations :: "HloComputation list"

definition find_instruction :: "HloComputation \<Rightarrow> InstrId \<Rightarrow> HloInstruction option" where
  "find_instruction c i = map_of (instructions c) i"

text \<open>
  \<open>mutable_operand(i)\<close>: the operand's index and the node it points to; \<open>None\<close> where the
  operand index is out of range or the pointer dangles (the C++ aborts or is undefined).
\<close>

definition mutable_operand ::
  "HloComputation \<Rightarrow> HloInstruction \<Rightarrow> nat \<Rightarrow> (InstrId \<times> HloInstruction) option" where
  "mutable_operand c instr i =
     (if i < length (operands instr)
      then map_option (\<lambda>x. (operands instr ! i, x)) (find_instruction c (operands instr ! i))
      else None)"

subsection \<open>Graph mutation\<close>

text \<open>
  Modelled from the spec: \<open>AddInstruction\<close>, \<open>ReplaceAllUsesWith\<close>, \<open>RemoveInstruction\<close>,
  \<open>CreateCopyStart\<close>, \<open>CreateUnary\<close> and \<open>CreateAsyncInstructions\<close> are defined outside the
  files at hand. The spec has the rewrite add nodes at fresh stable indices, redirect all
  consumers of the original instruction to the done node, and (for the generic helper)
  remove the original instruction; the start node of the generic helper emits the original
  result shape plus the metadata shapes, the done node consumes it and yields the original
  shape.
\<close>

definition mentioned_ids :: "HloComputation \<Rightarrow> InstrId list" where
  "mentioned_ids c =
     root_instruction c # map fst (instructions c) @ concat (map (operands \<circ> snd) (instructions c))"

definition unused_id :: "HloComputation \<Rightarrow> InstrId" where
  "unused_id c = Suc (fold max (mentioned_ids c) 0)"

definition AddInstruction :: "HloInstruction \<Rightarrow> HloComputation \<Rightarrow> InstrId \<times> HloComputation" where
  "AddInstruction instr c =
     (let i = unused_id c in (i, c\<lparr>instructions := instructions c @ [(i, instr)]\<rparr>))"

definition replace_operand :: "InstrId \<Rightarrow> InstrId \<Rightarrow> HloInstruction \<Rightarrow> HloInstruction" where
  "replace_operand old_producer new_producer user =
     user\<lparr>operands := map (\<lambda>x. if x = old_producer then new_producer else x) (operands user)\<rparr>"

definition ReplaceAllUsesWith :: "InstrId \<Rightarrow> InstrId \<Rightarrow> HloComputation \<Rightarrow> HloComputation" where
  "ReplaceAllUsesWith old_producer new_producer c =
     c\<lparr>instructions :=
         map (\<lambda>(i, user). (i, replace_operand old_producer new_producer user)) (instructions c),
       root_instruction :=
         (if root_instruction c = old_producer then new_producer else root_instruction c)\<rparr>"

definition RemoveInstruction :: "InstrId \<Rightarrow> HloComputation \<Rightarrow> HloComputation" where
  "RemoveInstruction i c = c\<lparr>instructions := filter (\<lambda>(j, x). j \<noteq> i) (instructions c)\<rparr>"

definition CreateCopyStart :: "Shape \<Rightarrow> InstrId \<Rightarrow> HloInstruction" where
  "CreateCopyStart s operand =
     \<lparr>name = HloOpcodeString kCopyStart, opcode = kCopyStart, shape = s, operands = [operand]\<rparr>"

definition CreateUnary :: "Shape \<Rightarrow> HloOpcode \<Rightarrow> InstrId \<Rightarrow> HloInstruction" where
  "CreateUnary s oc operand =
     \<lparr>name = HloOpcodeString oc, opcode = oc, shape = s, operands = [operand]\<rparr>"

definition CreateAsyncInstructions ::
  "InstrId \<Rightarrow> Shape list \<Rightarrow> HloComputation \<Rightarrow> (Status + InstrId) \<times> HloComputation" where
  "CreateAsyncInstructions instruction context_shapes c =
     (case find_instruction c instruction of
        None \<Rightarrow> (Inl CheckFailure, c)
      | Some instr \<Rightarrow>
          let (async_start, c1) =
                AddInstruction
                  \<lparr>name = HloOpcodeString kAsyncStart, opcode = kAsyncStart,
                   shape = MakeTupleShape (shape instr # context_shapes),
                   operands = operands instr\<rparr> c;
              (async_done, c2) =
                AddInstruction
                  \<lparr>name = HloOpcodeString kAsyncDone, opcode = kAsyncDone,
                   shape = shape instr, operands = [async_start]\<rparr> c1;
              c3 = ReplaceAllUsesWith instruction async_done c2;
              c4 = RemoveInstruction instruction c3
          in (Inr async_done, c4))"

subsection \<open>The visitor\<close>

text \<open>
  The visitor's state is its flag \<open>changed_\<close> (the field \<open>changed'\<close>) together with the
  computation it is walking, which the handlers mutate in place; the constant
  \<open>kHostMemorySpaceColor\<close> is each handler's first argument. A handler returns its status
  and the state it leaves.
\<close>

record VisitorState =
  parent :: HloComputation
  changed' :: bool

definition MarkAsChanged :: "VisitorState \<Rightarrow> VisitorState" where
  "MarkAsChanged st = st\<lparr>changed' := True\<rparr>"

definition DefaultAction :: "InstrId \<Rightarrow> VisitorState \<Rightarrow> Status \<times> VisitorState" where
  "DefaultAction hlo_instruction st = (OkStatus, st)"

definition HandleDynamicSlice :: "64 word \<Rightarrow> InstrId \<Rightarrow> VisitorState \<Rightarrow> Status \<times> VisitorState" where
  "HandleDynamicSlice kHostMemorySpaceColor dynamic_slice_id st =
     (case find_instruction (parent st) dynamic_slice_id of
        None \<Rightarrow> (CheckFailure, st)
      | Some dynamic_slice \<Rightarrow>
     (case mutable_operand (parent st) dynamic_slice 0 of
        None \<Rightarrow> (CheckFailure, st)
      | Some (operand_id, dynamic_slice_operand) \<Rightarrow>
     (case layout (shape dynamic_slice) of
        None \<Rightarrow> (InternalError (name dynamic_slice @ '' does not have a layout.''), st)
      | Some dynamic_slice_layout \<Rightarrow>
     (case layout (shape dynamic_slice_operand) of
        None \<Rightarrow>
          (InternalError (name dynamic_slice @ [CHR 0x27] @ ''s operand, '' @
             name dynamic_slice_operand @ '', does not have a layout.''), st)
      | Some operand_layout \<Rightarrow>
          if memory_space operand_layout \<noteq> kHostMemorySpaceColor then (OkStatus, st)
          else if memory_space dynamic_slice_layout \<noteq> kDefaultMemorySpace then (OkStatus, st)
          else
            let context_shape = MakeScalarShape U32;
                transfer_bytes_shape = MakeScalarShape S32
            in (case CreateAsyncInstructions dynamic_slice_id
                       [context_shape, transfer_bytes_shape] (parent st) of
                  (Inl err, c) \<Rightarrow> (err, st\<lparr>parent := c\<rparr>)
                | (Inr async_done, c) \<Rightarrow> (OkStatus, MarkAsChanged (st\<lparr>parent := c\<rparr>)))))))"

definition HandleDynamicUpdateSlice ::
  "64 word \<Rightarrow> InstrId \<Rightarrow> VisitorState \<Rightarrow> Status \<times> VisitorState" where
  "HandleDynamicUpdateSlice kHostMemorySpaceColor dynamic_update_slice_id st =
     (case find_instruction (parent st) dynamic_update_slice_id of
        None \<Rightarrow> (CheckFailure, st)
      | Some dynamic_update_slice \<Rightarrow>
     (case mutable_operand (parent st) dynamic_update_slice 0 of
        None \<Rightarrow> (CheckFailure, st)
      | Some (operand_id, dynamic_update_slice_operand) \<Rightarrow>
     (case mutable_operand (parent st) dynamic_update_slice 1 of
        None \<Rightarrow> (CheckFailure, st)
      | Some (update_id, dynamic_update_slice_update) \<Rightarrow>
     (case layout (shape dynamic_update_slice) of
        None \<Rightarrow> (InternalError (name dynamic_update_slice @ '' does not have a layout.''), st)
      | Some dynamic_update_slice_layout \<Rightarrow>
     (case layout (shape dynamic_update_slice_operand) of
        None \<Rightarrow>
          (InternalError (name dynamic_update_slice @ [CHR 0x27] @ ''s operand, '' @
             name dynamic_update_slice_operand @ '', does not have a layout.''), st)
      | Some operand_layout \<Rightarrow>
     (case layout (shape dynamic_update_slice_update) of
        None \<Rightarrow>
          (InternalError (name dynamic_update_slice @ [CHR 0x27] @ ''s update, '' @
             name dynamic_update_slice_update @ '', does not have a layout.''), st)
      | Some update_layout \<Rightarrow>
          if memory_space update_layout \<noteq> kDefaultMemorySpace then (OkStatus, st)
          else if memory_space dynamic_update_slice_layout \<noteq> kHostMemorySpaceColor
          then (OkStatus, st)
          else if memory_space operand_layout \<noteq> memory_space dynamic_update_slice_layout
          then (InternalError (''Unexpected that '' @ name dynamic_update_slice_operand @
                  [CHR 0x27] @ ''s memory space is not the same as the dynamic-update-slice.''),
                st)
          else
            let context_shape = MakeScalarShape U32
            in (case CreateAsyncInstructions dynamic_update_slice_id [context_shape] (parent st) of
                  (Inl err, c) \<Rightarrow> (err, st\<lparr>parent := c\<rparr>)
                | (Inr async_done, c) \<Rightarrow> (OkStatus, MarkAsChanged (st\<lparr>parent := c\<rparr>)))))))))"

definition HandleCopy :: "64 word \<Rightarrow> InstrId \<Rightarrow> VisitorState \<Rightarrow> Status \<times> VisitorState" where
  "HandleCopy kHostMemorySpaceColor copy_id st =
     (case find_instruction (parent st) copy_id of
        None \<Rightarrow> (CheckFailure, st)
      | Some copy \<Rightarrow>
     (case mutable_operand (parent st) copy 0 of
        None \<Rightarrow> (CheckFailure, st)
      | Some (operand_id, operand) \<Rightarrow>
     (case layout (shape operand) of
        None \<Rightarrow> (InternalError (name operand @ '' does not have a layout.''), st)
      | Some operand_layout \<Rightarrow>
     (case layout (shape copy) of
        None \<Rightarrow> (InternalError (name copy @ '' does not have a layout.''), st)
      | Some copy_layout \<Rightarrow>
          let copy_src_memory_space = memory_space operand_layout;
              copy_dst_memory_space = memory_space copy_layout
          in
          if \<not> ((copy_src_memory_space = kHostMemorySpaceColor \<and>
                  copy_dst_memory_space = kDefaultMemorySpace) \<or>
                 (copy_src_memory_space = kDefaultMemorySpace \<and>
                  copy_dst_memory_space = kHostMemorySpaceColor))
          then (OkStatus, st)
          else
            let context_shape = MakeScalarShape U32;
                instruction_shape_source = shape operand;
                instruction_shape_destination = shape copy;
                (copy_start_to_device, c1) =
                  AddInstruction
                    (CreateCopyStart
                       (MakeTupleShape [instruction_shape_destination, instruction_shape_source,
                                        context_shape])
                       operand_id)
                    (parent st);
                (copy_done_to_device, c2) =
                  AddInstruction
                    (CreateUnary instruction_shape_destination kCopyDone copy_start_to_device) c1;
                c3 = ReplaceAllUsesWith copy_id copy_done_to_device c2
            in (OkStatus, MarkAsChanged (st\<lparr>parent := c3\<rparr>))))))"

text \<open>
  Modelled from the spec: \<open>HloComputation::Accept\<close> and the visitor's dispatch on the opcode
  are defined outside the files at hand. The spec has the pass walk every instruction of
  a computation once, with a default no-op and overrides for dynamic-slice,
  dynamic-update-slice and copy; the walk covers the instructions present when it starts
  and stops at the first handler that fails.
\<close>

definition Visit :: "64 word \<Rightarrow> InstrId \<Rightarrow> VisitorState \<Rightarrow> Status \<times> VisitorState" where
  "Visit kHostMemorySpaceColor i st =
     (case find_instruction (parent st) i of
        None \<Rightarrow> (CheckFailure, st)
      | Some hlo \<Rightarrow>
          (case opcode hlo of
             kDynamicSlice \<Rightarrow> HandleDynamicSlice kHostMemorySpaceColor i st
           | kDynamicUpdateSlice \<Rightarrow> HandleDynamicUpdateSlice kHostMemorySpaceColor i st
           | kCopy \<Rightarrow> HandleCopy kHostMemorySpaceColor i st
           | _ \<Rightarrow> DefaultAction i st))"

fun VisitAll :: "64 word \<Rightarrow> InstrId list \<Rightarrow> VisitorState \<Rightarrow> Status \<times> VisitorState" where
  "VisitAll kHostMemorySpaceColor [] st = (OkStatus, st)"
| "VisitAll kHostMemorySpaceColor (i # rest) st =
     (case Visit kHostMemorySpaceColor i st of
        (OkStatus, st') \<Rightarrow> VisitAll kHostMemorySpaceColor rest st'
      | (err, st') \<Rightarrow> (err, st'))"

definition Accept :: "64 word \<Rightarrow> VisitorState \<Rightarrow> Status \<times> VisitorState" where
  "Accept kHostMemorySpaceColor st =
     VisitAll kHostMemorySpaceColor (map fst (instructions (parent st))) st"

subsection \<open>The pass\<close>

text \<open>
  \<open>Run\<close> walks the computations of \<open>MakeNonfusionComputations\<close> with one visitor: a fusion
  computation is passed over. The module is mutated in place, so the model returns it next
  to the \<open>StatusOr<bool>\<close>: on an error it is the module as the pass left it.
\<close>

fun RunComputations ::
  "64 word \<Rightarrow> HloComputation list \<Rightarrow> bool \<Rightarrow> Status \<times> HloComputation list \<times> bool" where
  "RunComputations kHostMemorySpaceColor [] changed = (OkStatus, [], changed)"
| "RunComputations kHostMemorySpaceColor (computation # rest) changed =
     (if IsFusionComputation computation then
        (case RunComputations kHostMemorySpaceColor rest changed of
           (status, rest', changed1) \<Rightarrow> (status, computation # rest', changed1))
      else
        (case Accept kHostMemorySpaceColor \<lparr>parent = computation, changed' = changed\<rparr> of
           (OkStatus, st) \<Rightarrow>
             (case RunComputations kHostMemorySpaceColor rest (changed' st) of
                (status, rest', changed1) \<Rightarrow> (status, parent st # rest', changed1))
         | (err, st) \<Rightarrow> (err, parent st # rest, changed' st)))"

definition Run :: "64 word \<Rightarrow> HloModule \<Rightarrow> (Status + bool) \<times> HloModule" where
  "Run kHostMemorySpaceColor module =
     (case RunComputations kHostMemorySpaceColor (computations module) False of
        (OkStatus, cs, changed) \<Rightarrow> (Inr changed, module\<lparr>computations := cs\<rparr>)
      | (err, cs, changed) \<Rightarrow> (Inl err, module\<lparr>computations := cs\<rparr>))"

subsection \<open>What the visitor does at an instruction\<close>

text \<open>
  For reasoning about a whole walk: the visitor's decision at an instruction as a function
  of what the handlers read (the opcode, the layout of the result shape, and the layouts of
  the shapes of operands 0 and 1, where an operand that cannot be read makes the handler
  abort), and the shape of a computation after a rewrite of instruction \<open>x\<close> into a start
  node \<open>s\<close> and a done node \<open>d\<close>. The lemma \<open>Visit_step\<close> ties both to \<open>Visit\<close>.
\<close>

datatype Decision = Skip | Fail | RewriteAsync | RewriteCopy

definition operand_layout :: "HloComputation \<Rightarrow> HloInstruction \<Rightarrow> nat \<Rightarrow> Layout option option" where
  "operand_layout c instr n = map_option (\<lambda>(i, x). layout (shape x)) (mutable_operand c instr n)"

definition decide_on ::
  "64 word \<Rightarrow> HloOpcode \<Rightarrow> Layout option \<Rightarrow> Layout option option \<Rightarrow> Layout option option
     \<Rightarrow> Decision" where
  "decide_on host oc own operand0 operand1 =
     (case oc of
        kDynamicSlice \<Rightarrow>
          (case (operand0, own) of
             (Some (Some l0), Some l) \<Rightarrow>
               if memory_space l0 = host \<and> memory_space l = kDefaultMemorySpace
               then RewriteAsync else Skip
           | _ \<Rightarrow> Fail)
      | kDynamicUpdateSlice \<Rightarrow>
          (case (operand0, operand1, own) of
             (Some (Some l0), Some (Some l1), Some l) \<Rightarrow>
               if memory_space l1 \<noteq> kDefaultMemorySpace then Skip
               else if memory_space l \<noteq> host then Skip
               else if memory_space l0 \<noteq> memory_space l then Fail
               else RewriteAsync
           | _ \<Rightarrow> Fail)
      | kCopy \<Rightarrow>
          (case (operand0, own) of
             (Some (Some l0), Some l) \<Rightarrow>
               if (memory_space l0 = host \<and> memory_space l = kDefaultMemorySpace) \<or>
                  (memory_space l0 = kDefaultMemorySpace \<and> memory_space l = host)
               then RewriteCopy else Skip
           | _ \<Rightarrow> Fail)
      | _ \<Rightarrow> Skip)"

definition decide :: "64 word \<Rightarrow> HloComputation \<Rightarrow> HloInstruction \<Rightarrow> Decision" where
  "decide host c instr =
     decide_on host (opcode instr) (layout (shape instr))
       (operand_layout c instr 0) (operand_layout c instr 1)"

definition spliced ::
  "bool \<Rightarrow> InstrId \<Rightarrow> InstrId \<Rightarrow> HloInstruction \<Rightarrow> InstrId \<Rightarrow> HloInstruction \<Rightarrow> HloComputation
     \<Rightarrow> HloComputation" where
  "spliced remove x s start d done c =
     c\<lparr>instructions :=
         (if remove then filter (\<lambda>(j, u). j \<noteq> x) else id)
           (map (\<lambda>(j, u). (j, replace_operand x d u)) (instructions c @ [(s, start), (d, done)])),
       root_instruction := (if root_instruction c = x then d else root_instruction c)\<rparr>"

definition splice_ok ::
  "HloComputation \<Rightarrow> InstrId \<Rightarrow> HloInstruction \<Rightarrow> InstrId \<Rightarrow> HloInstruction \<Rightarrow> InstrId
     \<Rightarrow> HloInstruction \<Rightarrow> bool" where
  "splice_ok c x instr s start d done =
     (find_instruction c x = Some instr \<and>
      s \<notin> set (mentioned_ids c) \<and> d \<notin> set (mentioned_ids c) \<and> s \<noteq> d \<and>
      shape done = shape instr \<and>
      opcode start \<in> {kCopyStart, kAsyncStart} \<and> opcode done \<in> {kCopyDone, kAsyncDone})"

text \<open>What a visit that follows decision \<open>dec\<close> at instruction \<open>x\<close> returns from state \<open>st\<close>.\<close>

definition step_matches ::
  "Decision \<Rightarrow> InstrId \<Rightarrow> HloInstruction \<Rightarrow> VisitorState \<Rightarrow> Status \<times> VisitorState \<Rightarrow> bool" where
  "step_matches dec x instr st r =
     (case dec of
        Skip \<Rightarrow> r = (OkStatus, st)
      | Fail \<Rightarrow> fst r \<noteq> OkStatus \<and> snd r = st
      | RewriteAsync \<Rightarrow>
          (\<exists>s start d done. splice_ok (parent st) x instr s start d done \<and>
             r = (OkStatus, \<lparr>parent = spliced True x s start d done (parent st), changed' = True\<rparr>))
      | RewriteCopy \<Rightarrow>
          (\<exists>s start d done. splice_ok (parent st) x instr s start d done \<and>
             r = (OkStatus, \<lparr>parent = spliced False x s start d done (parent st), changed' = True\<rparr>)))"

text \<open>
  A copy between host memory and device memory: the copies \<open>HandleCopy\<close> rewrites. An
  instruction list is settled when the visitor skips every instruction of it.
\<close>

definition transfer_copy :: "64 word \<Rightarrow> HloComputation \<Rightarrow> HloInstruction \<Rightarrow> bool" where
  "transfer_copy host c instr =
     (opcode instr = kCopy \<and>
      (case mutable_operand c instr 0 of
         None \<Rightarrow> False
       | Some (oid, operand) \<Rightarrow>
           (case (layout (shape operand), layout (shape instr)) of
              (Some src, Some dst) \<Rightarrow>
                (memory_space src = host \<and> memory_space dst = kDefaultMemorySpace) \<or>
                (memory_space src = kDefaultMemorySpace \<and> memory_space dst = host)
            | _ \<Rightarrow> False)))"

definition has_transfer_copy :: "64 word \<Rightarrow> HloModule \<Rightarrow> bool" where
  "has_transfer_copy host module =
     list_ex (\<lambda>c. \<not> IsFusionComputation c \<and>
                list_ex (\<lambda>(j, u). find_instruction c j = Some u \<and> transfer_copy host c u)
                  (instructions c))
       (computations module)"

definition settled :: "64 word \<Rightarrow> HloComputation \<Rightarrow> bool" where
  "settled host c = (\<forall>j u. find_instruction c j = Some u \<longrightarrow> decide host c u = Skip)"

text \<open>
  A slice, update or copy instruction whose operands can be read and whose result shape,
  or the shape of an operand its handler checks, has no layout.
\<close>

definition missing_layout :: "HloComputation \<Rightarrow> HloInstruction \<Rightarrow> bool" where
  "missing_layout c instr =
     (case opcode instr of
        kDynamicSlice \<Rightarrow>
          (case mutable_operand c instr 0 of
             None \<Rightarrow> False
           | Some (oid, operand) \<Rightarrow> \<not> has_layout (shape instr) \<or> \<not> has_layout (shape operand))
      | kDynamicUpdateSlice \<Rightarrow>
          (case (mutable_operand c instr 0, mutable_operand c instr 1) of
             (Some (oid, operand), Some (uid, update)) \<Rightarrow>
               \<not> has_layout (shape instr) \<or> \<not> has_layout (shape operand) \<or>
               \<not> has_layout (shape update)
           | _ \<Rightarrow> False)
      | kCopy \<Rightarrow>
          (case mutable_operand c instr 0 of
             None \<Rightarrow> False
           | Some (oid, operand) \<Rightarrow> \<not> has_layout (shape instr) \<or> \<not> has_layout (shape operand))
      | _ \<Rightarrow> False)"

subsection \<open>Example programs\<close>

text \<open>
  Small computations for running the pass: a parameter copied into another memory space
  and consumed twice; the same with a dynamic-slice of the copy that has no layout; and a
  dynamic-slice from host memory (space 5) to device memory (space 0).
\<close>

definition f32_4 :: "64 word option \<Rightarrow> Shape" where
  "f32_4 space = ArrayShape F32 [4] (map_option (\<lambda>s. \<lparr>memory_space = s\<rparr>) space)"

definition copy_computation :: "64 word \<Rightarrow> 64 word \<Rightarrow> HloComputation" where
  "copy_computation src dst =
     \<lparr>instructions =
        [(0, \<lparr>name = ''p0'', opcode = kParameter, shape = f32_4 (Some src), operands = []\<rparr>),
         (1, \<lparr>name = ''copy.1'', opcode = kCopy, shape = f32_4 (Some dst), operands = [0]\<rparr>),
         (2, \<lparr>name = ''add.2'', opcode = kAdd, shape = f32_4 (Some dst), operands = [1, 1]\<rparr>)],
      root_instruction = 2, IsFusionComputation = False\<rparr>"

definition copy_then_slice_computation :: HloComputation where
  "copy_then_slice_computation =
     \<lparr>instructions =
        [(0, \<lparr>name = ''p0'', opcode = kParameter, shape = f32_4 (Some 5), operands = []\<rparr>),
         (1, \<lparr>name = ''copy.1'', opcode = kCopy, shape = f32_4 (Some 0), operands = [0]\<rparr>),
         (2, \<lparr>name = ''i'', opcode = kConstant, shape = ArrayShape S32 [] None, operands = []\<rparr>),
         (3, \<lparr>name = ''ds.3'', opcode = kDynamicSlice, shape = f32_4 None, operands = [1, 2]\<rparr>)],
      root_instruction = 3, IsFusionComputation = False\<rparr>"

definition slice_computation :: HloComputation where
  "slice_computation =
     \<lparr>instructions =
        [(0, \<lparr>name = ''p0'', opcode = kParameter, shape = f32_4 (Some 5), operands = []\<rparr>),
         (1, \<lparr>name = ''i'', opcode = kConstant, shape = ArrayShape S32 [] None, operands = []\<rparr>),
         (2, \<lparr>name = ''ds.2'', opcode = kDynamicSlice, shape = f32_4 (Some 0), operands = [0, 1]\<rparr>),
         (3, \<lparr>name = ''add.3'', opcode = kAdd, shape = f32_4 (Some 0), operands = [2, 2]\<rparr>)],
      root_instruction = 3, IsFusionComputation = False\<rparr>"

definition update_computation :: "64 word option \<Rightarrow> HloComputation" where
  "update_computation update_space =
     \<lparr>instructions =
        [(0, \<lparr>name = ''p0'', opcode = kParameter, shape = f32_4 (Some 5), operands = []\<rparr>),
         (1, \<lparr>name = ''p1'', opcode = kParameter, shape = f32_4 update_space, operands = []\<rparr>),
         (2, \<lparr>name = ''i'', opcode = kConstant, shape = ArrayShape S32 [] None, operands = []\<rparr>),
         (3, \<lparr>name = ''dus.3'', opcode = kDynamicUpdateSlice, shape = f32_4 (Some 5),
               operands = [0, 1, 2]\<rparr>)],
      root_instruction = 3, IsFusionComputation = False\<rparr>"

section \<open>Properties of the selector\<close>

lemma takeWhile_within_limit:
  "sorted_wrt (\<lambda>a b. \<not> run_time_less b a) xs \<Longrightarrow>
   takeWhile (\<lambda>x. \<not> FromDurationProto (run_time x) > L) xs =
   filter (\<lambda>x. FromDurationProto (run_time x) \<le> L) xs"
proof (induction xs)
  case Nil
  then show ?case by simp
next
  case (Cons a xs)
  show ?case
  proof (cases "FromDurationProto (run_time a) \<le> L")
    case True
    with Cons show ?thesis by simp
  next
    case False
    from Cons.prems have "\<forall>b\<in>set xs. FromDurationProto (run_time a) \<le> FromDurationProto (run_time b)"
      by (auto simp: run_time_less_def)
    with False have "filter (\<lambda>x. FromDurationProto (run_time x) \<le> L) xs = []"
      by (auto simp: filter_empty_conv)
    with False show ?thesis by simp
  qed
qed

lemma min_element_from_split:
  "\<exists>pre post. m # xs = pre @ min_element_from scratch_bytes_less m xs # post \<and>
     (\<forall>p\<in>set pre. scratch_bytes (min_element_from scratch_bytes_less m xs) < scratch_bytes p) \<and>
     (\<forall>q\<in>set post. scratch_bytes (min_element_from scratch_bytes_less m xs) \<le> scratch_bytes q)"
proof (induction xs arbitrary: m)
  case Nil
  show ?case by (rule exI[of _ "[]"]) simp
next
  case (Cons x xs)
  show ?case
  proof (cases "scratch_bytes x < scratch_bytes m")
    case True
    define r where "r = min_element_from scratch_bytes_less x xs"
    from Cons.IH[of x] obtain pre post where
      d: "x # xs = pre @ r # post"
      and p: "\<forall>p\<in>set pre. scratch_bytes r < scratch_bytes p"
      and q: "\<forall>q\<in>set post. scratch_bytes r \<le> scratch_bytes q"
      unfolding r_def by blast
    have "x \<in> set (pre @ r # post)" using d by (metis list.set_intros(1))
    then have "scratch_bytes r \<le> scratch_bytes x" using p q by auto
    with True have "scratch_bytes r < scratch_bytes m" by simp
    with d p q have "m # x # xs = (m # pre) @ r # post \<and>
       (\<forall>p\<in>set (m # pre). scratch_bytes r < scratch_bytes p) \<and>
       (\<forall>q\<in>set post. scratch_bytes r \<le> scratch_bytes q)" by simp
    moreover have "min_element_from scratch_bytes_less m (x # xs) = r"
      using True by (simp add: scratch_bytes_less_def r_def)
    ultimately show ?thesis by metis
  next
    case False
    define r where "r = min_element_from scratch_bytes_less m xs"
    have eq: "min_element_from scratch_bytes_less m (x # xs) = r"
      using False by (simp add: scratch_bytes_less_def r_def)
    from Cons.IH[of m] obtain pre post where
      d: "m # xs = pre @ r # post"
      and p: "\<forall>p\<in>set pre. scratch_bytes r < scratch_bytes p"
      and q: "\<forall>q\<in>set post. scratch_bytes r \<le> scratch_bytes q"
      unfolding r_def by blast
    show ?thesis
    proof (cases pre)
      case Nil
      with d have "r = m" "post = xs" by simp_all
      with q False have "m # x # xs = [] @ r # (x # xs) \<and>
         (\<forall>p\<in>set []. scratch_bytes r < scratch_bytes p) \<and>
         (\<forall>q\<in>set (x # xs). scratch_bytes r \<le> scratch_bytes q)" by auto
      with eq show ?thesis by metis
    next
      case (Cons a pre')
      with d have a: "a = m" and xs: "xs = pre' @ r # post" by simp_all
      from p Cons a have "scratch_bytes r < scratch_bytes m" by simp
      with False have "scratch_bytes r < scratch_bytes x" by simp
      with p q Cons a xs have "m # x # xs = (m # x # pre') @ r # post \<and>
         (\<forall>p\<in>set (m # x # pre'). scratch_bytes r < scratch_bytes p) \<and>
         (\<forall>q\<in>set post. scratch_bytes r \<le> scratch_bytes q)" by auto
      with eq show ?thesis by metis
    qed
  qed
qed

lemma find_first_smallest:
  assumes "xs = pre @ r # post"
    and "\<forall>p\<in>set pre. scratch_bytes r < scratch_bytes p"
    and "\<forall>q\<in>set post. scratch_bytes r \<le> scratch_bytes q"
  shows "find (\<lambda>x. \<forall>y\<in>set xs. scratch_bytes x \<le> scratch_bytes y) xs = Some r"
proof -
  let ?P = "\<lambda>x. \<forall>y\<in>set xs. scratch_bytes x \<le> scratch_bytes y"
  have r: "?P r" using assms by auto
  have "r \<in> set xs" using assms by simp
  then have pre: "\<forall>p\<in>set pre. \<not> ?P p" using assms(2) by force
  have "find ?P (pre @ r # post) = Some r"
    using pre r by (induction pre) auto
  then show ?thesis using assms(1) by simp
qed

lemma c_min_element_first_smallest:
  "xs \<noteq> [] \<Longrightarrow>
   \<exists>r. c_min_element scratch_bytes_less xs = Some r \<and>
       find (\<lambda>x. \<forall>y\<in>set xs. scratch_bytes x \<le> scratch_bytes y) xs = Some r"
proof (cases xs)
  case Nil
  then show "xs \<noteq> [] \<Longrightarrow> ?thesis" by simp
next
  case (Cons m rest)
  from min_element_from_split[of m rest] obtain pre post where
    "m # rest = pre @ min_element_from scratch_bytes_less m rest # post"
    "\<forall>p\<in>set pre. scratch_bytes (min_element_from scratch_bytes_less m rest) < scratch_bytes p"
    "\<forall>q\<in>set post. scratch_bytes (min_element_from scratch_bytes_less m rest) \<le> scratch_bytes q"
    by blast
  then have "find (\<lambda>x. \<forall>y\<in>set (m # rest). scratch_bytes x \<le> scratch_bytes y) (m # rest)
      = Some (min_element_from scratch_bytes_less m rest)"
    by (rule find_first_smallest)
  with Cons show ?thesis by (simp add: c_min_element_def)
qed


lemma sorted_contract_nonempty:
  "c_sort_contract srt cmp xs \<Longrightarrow> xs \<noteq> [] \<Longrightarrow> srt cmp xs \<noteq> []"
  by (auto simp: c_sort_contract_def)

lemma sorted_contract_set:
  "c_sort_contract srt cmp xs \<Longrightarrow> set (srt cmp xs) = set xs"
  by (auto simp: c_sort_contract_def dest: mset_eq_setD)

lemma PickBestResult_window:
  assumes c: "c_sort_contract srt run_time_less (KeepNonFailures rs)"
    and ne: "KeepNonFailures rs \<noteq> []"
    and nd: "\<not> RequireDeterminism env cfg"
  defines "sorted_results \<equiv> srt run_time_less (KeepNonFailures rs)"
  defines "min_time \<equiv> Min ((\<lambda>r. FromDurationProto (run_time r)) ` set (KeepNonFailures rs))"
  defines "window \<equiv> filter (\<lambda>x. FromDurationProto (run_time x) \<le> min_time + 2000) sorted_results"
  shows "\<exists>best. PickBestResult srt env rs instr cfg = Some (Inr best) \<and>
           find (\<lambda>x. \<forall>y\<in>set window. scratch_bytes x \<le> scratch_bytes y) window = Some best"
proof -
  have sne: "sorted_results \<noteq> []"
    using c ne unfolding sorted_results_def by (rule sorted_contract_nonempty)
  then obtain a rest where ar: "sorted_results = a # rest" by (cases sorted_results) auto
  have srt: "sorted_wrt (\<lambda>a b. \<not> run_time_less b a) sorted_results"
    using c by (simp add: c_sort_contract_def sorted_results_def)
  have seteq: "set sorted_results = set (KeepNonFailures rs)"
    using c unfolding sorted_results_def by (rule sorted_contract_set)
  have le: "\<forall>b\<in>set sorted_results. FromDurationProto (run_time a) \<le> FromDurationProto (run_time b)"
    using srt ar by (auto simp: run_time_less_def)
  have "a \<in> set (KeepNonFailures rs)" using seteq ar by auto
  then have mt: "min_time = FromDurationProto (run_time a)"
    unfolding min_time_def using le seteq
    by (intro Min_eqI) auto
  have top: "TopResultsWithinMeasurementError sorted_results = Some window"
    using takeWhile_within_limit[OF srt, of "min_time + 2000"] ar mt
    by (simp add: TopResultsWithinMeasurementError_def window_def kMeasurementError_def)
  have "a \<in> set window" using ar mt by (simp add: window_def)
  then have "window \<noteq> []" by auto
  from c_min_element_first_smallest[OF this] obtain best where
    b: "c_min_element scratch_bytes_less window = Some best"
       "find (\<lambda>x. \<forall>y\<in>set window. scratch_bytes x \<le> scratch_bytes y) window = Some best"
    by blast
  have rs: "rs \<noteq> []" using ne by (auto simp: KeepNonFailures_def)
  have "PickBestResult srt env rs instr cfg = Some (Inr best)"
    using rs ne nd top b(1)
    by (simp add: PickBestResult_def SortAutotuningResultsByRunTime_def sorted_results_def)
  with b(2) show ?thesis by blast
qed

lemma keep_window_example: "KeepNonFailures window_example = window_example"
  by (simp add: KeepNonFailures_def window_example_def keep_result_def has_failure_def
      candidate_10us_def candidate_10_5us_def candidate_11us_def candidate_50us_def)

lemma m_ex: "Min ((\<lambda>r. FromDurationProto (run_time r)) ` set window_example) = 10000"
  by (simp add: window_example_def FromDurationProto_def candidate_10us_def candidate_10_5us_def candidate_11us_def candidate_50us_def)

lemma w_ex: "{x \<in> set window_example. FromDurationProto (run_time x) \<le> 10000 + 2000} = {candidate_10us, candidate_10_5us, candidate_11us}"
  by (auto simp: window_example_def FromDurationProto_def candidate_10us_def candidate_10_5us_def candidate_11us_def candidate_50us_def)

lemma best_ex: "best \<in> {candidate_10us, candidate_10_5us, candidate_11us} \<Longrightarrow> \<forall>y\<in>{candidate_10us, candidate_10_5us, candidate_11us}. scratch_bytes best \<le> scratch_bytes y \<Longrightarrow> best = candidate_11us"
  by (auto simp: candidate_10us_def candidate_10_5us_def candidate_11us_def)



lemma PickBestResult_example:
  assumes c: "c_sort_contract srt run_time_less window_example"
    and nd: "\<not> RequireDeterminism env cfg"
  shows "PickBestResult srt env window_example instr cfg = Some (Inr candidate_11us)"
proof -
  define w where "w = filter (\<lambda>x. FromDurationProto (run_time x) \<le>
      Min ((\<lambda>r. FromDurationProto (run_time r)) ` set (KeepNonFailures window_example)) + 2000)
      (srt run_time_less (KeepNonFailures window_example))"
  have c': "c_sort_contract srt run_time_less (KeepNonFailures window_example)"
    unfolding keep_window_example by (rule c)
  have ne: "KeepNonFailures window_example \<noteq> []"
    unfolding keep_window_example by (simp add: window_example_def)
  have "\<exists>best. PickBestResult srt env window_example instr cfg = Some (Inr best) \<and>
     find (\<lambda>x. \<forall>y\<in>set w. scratch_bytes x \<le> scratch_bytes y) w = Some best"
    unfolding w_def by (rule PickBestResult_window[OF c' ne nd])
  then obtain best where
    p: "PickBestResult srt env window_example instr cfg = Some (Inr best)"
    and f: "find (\<lambda>x. \<forall>y\<in>set w. scratch_bytes x \<le> scratch_bytes y) w = Some best"
    by (elim exE conjE)
  have "set (srt run_time_less window_example) = set window_example"
    using c by (rule sorted_contract_set)
  then have "set w = {x \<in> set window_example. FromDurationProto (run_time x) \<le> 10000 + 2000}"
    unfolding w_def keep_window_example m_ex by simp
  then have sw: "set w = {candidate_10us, candidate_10_5us, candidate_11us}"
    by (simp only: w_ex)
  from f obtain i where "i < length w" "best = w ! i"
     "\<forall>y\<in>set w. scratch_bytes (w ! i) \<le> scratch_bytes y"
    unfolding find_Some_iff by (elim exE conjE) simp
  then have "best \<in> set w" "\<forall>y\<in>set w. scratch_bytes best \<le> scratch_bytes y"
    by simp_all
  then have "best = candidate_11us"
    unfolding sw by (rule best_ex)
  with p show ?thesis by simp
qed

lemma keep_result_iff:
  "keep_result r \<longleftrightarrow> (failure r = None \<or> (\<exists>f. failure r = Some f \<and> kind f = WRONG_RESULT))"
  by (cases "failure r") (simp_all add: keep_result_def has_failure_def failure_kind_def)

lemma failure_msg_in_concat:
  "r \<in> set rs \<Longrightarrow> sublist (failure_msg r) (h @ concat (map (\<lambda>x. p @ failure_msg x) rs))"
proof -
  assume "r \<in> set rs"
  then obtain ys zs where "rs = ys @ r # zs" by (auto dest: split_list)
  then have "h @ concat (map (\<lambda>x. p @ failure_msg x) rs) =
      (h @ concat (map (\<lambda>x. p @ failure_msg x) ys) @ p) @ failure_msg r @
      concat (map (\<lambda>x. p @ failure_msg x) zs)" by simp
  then show ?thesis unfolding sublist_def by blast
qed

lemma all_failed_message:
  "\<exists>m. AllAlgorithmsFailedInternalError instr rs = InternalError m \<and>
       (\<forall>r\<in>set rs. sublist (failure_msg r) m)"
  unfolding AllAlgorithmsFailedInternalError_def
  using failure_msg_in_concat[of _ rs _ "[CHR 0x0A] @ ''  ''"] by auto

lemma hd_filter_first:
  "filter P xs \<noteq> [] \<Longrightarrow>
   \<exists>pre post. xs = pre @ hd (filter P xs) # post \<and> (\<forall>p\<in>set pre. \<not> P p) \<and> P (hd (filter P xs))"
proof -
  assume "filter P xs \<noteq> []"
  then obtain y ys where "filter P xs = y # ys" by (cases "filter P xs") auto
  then obtain us vs where "xs = us @ y # vs" "\<forall>u\<in>set us. \<not> P u" "P y"
    unfolding filter_eq_Cons_iff by blast
  with \<open>filter P xs = y # ys\<close> show ?thesis by auto
qed

lemma PickBestResult_first_kept:
  assumes "RequireDeterminism env cfg" and "KeepNonFailures rs \<noteq> []"
  shows "\<exists>pre r post. rs = pre @ r # post \<and> (\<forall>p\<in>set pre. \<not> keep_result p) \<and> keep_result r \<and>
           PickBestResult srt env rs instr cfg = Some (Inr r)"
proof -
  from assms(2) have rs: "rs \<noteq> []" by (auto simp: KeepNonFailures_def)
  from assms(2) obtain pre post where
    "rs = pre @ hd (KeepNonFailures rs) # post" "\<forall>p\<in>set pre. \<not> keep_result p"
    "keep_result (hd (KeepNonFailures rs))"
    unfolding KeepNonFailures_def using hd_filter_first[of keep_result rs] by blast
  moreover have "PickBestResult srt env rs instr cfg = Some (Inr (hd (KeepNonFailures rs)))"
    using assms rs by (simp add: PickBestResult_def)
  ultimately show ?thesis by blast
qed


lemma insert_sorted_mset: "mset (insert_sorted cmp x xs) = add_mset x (mset xs)"
  by (induction xs) auto

lemma insertion_sort_mset: "mset (insertion_sort cmp xs) = mset xs"
  unfolding insertion_sort_def by (induction xs) (auto simp: insert_sorted_mset)

text \<open>
  C1. With determinism not required, the selector applied to the candidates with run times
  10, 10.5, 11 and 50 microseconds and scratch bytes 100, 10, 5 and 1 returns the candidate
  of 11 microseconds and 5 scratch bytes. In general, on the kept candidates sorted by
  ascending run time, it returns the first candidate of smallest scratch-byte count among
  those whose run time is at most the smallest run time plus 2 microseconds. This holds
  for every sorting routine that meets the contract of \<open>std::sort\<close> on the kept candidates.
\<close>

theorem PickBestResult_window_tie_break:
  assumes "\<not> RequireDeterminism env cfg"
  shows "(c_sort_contract srt run_time_less window_example \<longrightarrow>
            PickBestResult srt env window_example instr cfg = Some (Inr candidate_11us)) \<and>
         (KeepNonFailures rs \<noteq> [] \<and> c_sort_contract srt run_time_less (KeepNonFailures rs) \<longrightarrow>
            (\<exists>best. PickBestResult srt env rs instr cfg = Some (Inr best) \<and>
               find (\<lambda>x. \<forall>y\<in>set (filter (\<lambda>x. FromDurationProto (run_time x) \<le>
                        Min ((\<lambda>r. FromDurationProto (run_time r)) ` set (KeepNonFailures rs)) + 2000)
                        (srt run_time_less (KeepNonFailures rs))).
                      scratch_bytes x \<le> scratch_bytes y)
                 (filter (\<lambda>x. FromDurationProto (run_time x) \<le>
                    Min ((\<lambda>r. FromDurationProto (run_time r)) ` set (KeepNonFailures rs)) + 2000)
                    (srt run_time_less (KeepNonFailures rs))) = Some best))"
proof (intro conjI impI)
  assume "c_sort_contract srt run_time_less window_example"
  then show "PickBestResult srt env window_example instr cfg = Some (Inr candidate_11us)"
    using assms by (rule PickBestResult_example)
next
  assume a: "KeepNonFailures rs \<noteq> [] \<and> c_sort_contract srt run_time_less (KeepNonFailures rs)"
  then have c: "c_sort_contract srt run_time_less (KeepNonFailures rs)"
    and ne: "KeepNonFailures rs \<noteq> []" by simp_all
  show "\<exists>best. PickBestResult srt env rs instr cfg = Some (Inr best) \<and>
               find (\<lambda>x. \<forall>y\<in>set (filter (\<lambda>x. FromDurationProto (run_time x) \<le>
                        Min ((\<lambda>r. FromDurationProto (run_time r)) ` set (KeepNonFailures rs)) + 2000)
                        (srt run_time_less (KeepNonFailures rs))).
                      scratch_bytes x \<le> scratch_bytes y)
                 (filter (\<lambda>x. FromDurationProto (run_time x) \<le>
                    Min ((\<lambda>r. FromDurationProto (run_time r)) ` set (KeepNonFailures rs)) + 2000)
                    (srt run_time_less (KeepNonFailures rs))) = Some best"
    by (rule PickBestResult_window[OF c ne assms])
qed

lemma window_example_sorted:
  "c_sort_contract insertion_sort run_time_less window_example"
  unfolding c_sort_contract_def
  by (simp add: insertion_sort_mset)
     (simp add: insertion_sort_def window_example_def run_time_less_def FromDurationProto_def
        candidate_10us_def candidate_10_5us_def candidate_11us_def candidate_50us_def)

theorem PickBestResult_window_tie_break_witness:
  "\<not> RequireDeterminism False \<lparr>xla_gpu_deterministic_ops = False\<rparr> \<and>
   c_sort_contract insertion_sort run_time_less window_example \<and>
   PickBestResult insertion_sort False window_example None \<lparr>xla_gpu_deterministic_ops = False\<rparr>
     = Some (Inr candidate_11us)"
proof -
  have h: "\<not> RequireDeterminism False \<lparr>xla_gpu_deterministic_ops = False\<rparr>"
    by (simp add: RequireDeterminism_def)
  show ?thesis
    using h window_example_sorted
      PickBestResult_window_tie_break [OF h, of insertion_sort None window_example]
    by simp
qed

text \<open>
  C7. When determinism is required and at least one candidate survives the filter (it has
  no failure, or its failure kind is \<open>WRONG_RESULT\<close>), the selector returns the first
  surviving candidate in input order: every candidate before it is dropped by the filter.
  Run times, scratch bytes and the sorting routine play no part.
\<close>

theorem PickBestResult_deterministic:
  assumes "RequireDeterminism env cfg" and "KeepNonFailures rs \<noteq> []"
  shows "\<exists>pre r post. rs = pre @ r # post \<and>
           (\<forall>p\<in>set pre. \<not> (failure p = None \<or> (\<exists>f. failure p = Some f \<and> kind f = WRONG_RESULT))) \<and>
           (failure r = None \<or> (\<exists>f. failure r = Some f \<and> kind f = WRONG_RESULT)) \<and>
           PickBestResult srt env rs instr cfg = Some (Inr r)"
  using PickBestResult_first_kept[OF assms, of srt instr] unfolding keep_result_iff .

theorem PickBestResult_deterministic_witness:
  "RequireDeterminism True \<lparr>xla_gpu_deterministic_ops = False\<rparr> \<and>
   KeepNonFailures mixed_examples \<noteq> [] \<and>
   PickBestResult insertion_sort True mixed_examples None \<lparr>xla_gpu_deterministic_ops = False\<rparr>
     = Some (Inr \<lparr>scratch_bytes = 64, run_time = \<lparr>seconds = 0, nanos = 50000\<rparr>,
                   failure = Some \<lparr>kind = WRONG_RESULT, msg = ''mismatch''\<rparr>\<rparr>)"
proof -
  have h1: "RequireDeterminism True \<lparr>xla_gpu_deterministic_ops = False\<rparr>"
    by (simp add: RequireDeterminism_def)
  have h2: "KeepNonFailures mixed_examples \<noteq> []"
    by (simp add: KeepNonFailures_def mixed_examples_def keep_result_def has_failure_def
        failure_kind_def)
  show ?thesis
    using h1 h2 PickBestResult_deterministic [OF h1 h2, of insertion_sort None]
    by (simp add: PickBestResult_def KeepNonFailures_def mixed_examples_def keep_result_def
        has_failure_def failure_kind_def)
qed

lemma no_algorithm_message:
  "\<exists>m. NoAlgorithmSuppliedInternalError instr = InternalError m \<and>
       prefix ''The are no algorithm candiates for computing'' m \<and>
       (\<forall>s. instr = Some s \<longrightarrow> sublist s m)"
proof (cases instr)
  case None
  then show ?thesis by (simp add: NoAlgorithmSuppliedInternalError_def)
next
  case (Some s)
  have "sublist s (''The are no algorithm candiates for computing: '' @ [CHR 0x0A] @ ''  '' @ s @
            [CHR 0x0A] @ ''This likely means that the instruction shape is not supported by '' @
            ''the target GPU library.'')"
    unfolding sublist_def
    by (rule exI[of _ "''The are no algorithm candiates for computing: '' @ [CHR 0x0A] @ ''  ''"],
        rule exI[of _ "[CHR 0x0A] @ ''This likely means that the instruction shape is not supported by '' @
            ''the target GPU library.''"]) simp
  with Some show ?thesis by (simp add: NoAlgorithmSuppliedInternalError_def)
qed

lemma all_failed_message_prefix:
  "\<exists>m. AllAlgorithmsFailedInternalError instr rs = InternalError m \<and>
       prefix ''All algorithms'' m \<and> (\<forall>r\<in>set rs. sublist (failure_msg r) m)"
proof -
  from all_failed_message[of instr rs] obtain m where
    m: "AllAlgorithmsFailedInternalError instr rs = InternalError m"
    and s: "\<forall>r\<in>set rs. sublist (failure_msg r) m" by blast
  have "prefix ''All algorithms'' m"
    using m by (cases instr) (auto simp: AllAlgorithmsFailedInternalError_def)
  with m s show ?thesis by blast
qed

text \<open>
  C6. The selector fails in exactly two cases. On the empty list it fails with the
  no-candidates error: an internal error whose message begins ``The are no algorithm
  candiates for computing'' and holds the instruction string when one is given. On a
  non-empty list in which every candidate has a failure of a kind other than
  \<open>WRONG_RESULT\<close> it fails with the all-candidates-failed error: an internal error whose
  message begins ``All algorithms'' and contains the failure message of every candidate.
  The two errors differ. On every other list it returns one of the candidates of the list.
\<close>

theorem PickBestResult_failure_cases:
  assumes c: "c_sort_contract srt run_time_less (KeepNonFailures rs)"
  shows "(rs = [] \<longrightarrow>
            PickBestResult srt env rs instr cfg = Some (Inl (NoAlgorithmSuppliedInternalError instr)) \<and>
            (\<exists>m. NoAlgorithmSuppliedInternalError instr = InternalError m \<and>
                 prefix ''The are no algorithm candiates for computing'' m \<and>
                 (\<forall>s. instr = Some s \<longrightarrow> sublist s m))) \<and>
         (rs \<noteq> [] \<and> (\<forall>r\<in>set rs. \<exists>f. failure r = Some f \<and> kind f \<noteq> WRONG_RESULT) \<longrightarrow>
            PickBestResult srt env rs instr cfg = Some (Inl (AllAlgorithmsFailedInternalError instr rs)) \<and>
            (\<exists>m. AllAlgorithmsFailedInternalError instr rs = InternalError m \<and>
                 prefix ''All algorithms'' m \<and>
                 (\<forall>r\<in>set rs. sublist (failure_msg r) m))) \<and>
         (rs \<noteq> [] \<and> \<not> (\<forall>r\<in>set rs. \<exists>f. failure r = Some f \<and> kind f \<noteq> WRONG_RESULT) \<longrightarrow>
            (\<exists>r\<in>set rs. PickBestResult srt env rs instr cfg = Some (Inr r))) \<and>
         NoAlgorithmSuppliedInternalError instr \<noteq> AllAlgorithmsFailedInternalError instr rs"
proof (intro conjI impI)
  assume "rs = []"
  then show "PickBestResult srt env rs instr cfg = Some (Inl (NoAlgorithmSuppliedInternalError instr))"
    by (simp add: PickBestResult_def)
next
  assume "rs = []"
  show "\<exists>m. NoAlgorithmSuppliedInternalError instr = InternalError m \<and>
                 prefix ''The are no algorithm candiates for computing'' m \<and>
                 (\<forall>s. instr = Some s \<longrightarrow> sublist s m)"
    by (rule no_algorithm_message)
next
  assume a: "rs \<noteq> [] \<and> (\<forall>r\<in>set rs. \<exists>f. failure r = Some f \<and> kind f \<noteq> WRONG_RESULT)"
  then have "\<forall>r\<in>set rs. \<not> keep_result r" unfolding keep_result_iff by fastforce
  then have "KeepNonFailures rs = []" by (simp add: KeepNonFailures_def filter_empty_conv)
  with a show "PickBestResult srt env rs instr cfg = Some (Inl (AllAlgorithmsFailedInternalError instr rs))"
    by (simp add: PickBestResult_def)
next
  assume "rs \<noteq> [] \<and> (\<forall>r\<in>set rs. \<exists>f. failure r = Some f \<and> kind f \<noteq> WRONG_RESULT)"
  show "\<exists>m. AllAlgorithmsFailedInternalError instr rs = InternalError m \<and>
                 prefix ''All algorithms'' m \<and>
                 (\<forall>r\<in>set rs. sublist (failure_msg r) m)"
    by (rule all_failed_message_prefix)
next
  assume a: "rs \<noteq> [] \<and> \<not> (\<forall>r\<in>set rs. \<exists>f. failure r = Some f \<and> kind f \<noteq> WRONG_RESULT)"
  then obtain r where "r \<in> set rs" "keep_result r"
    unfolding keep_result_iff by (metis not_Some_eq)
  then have ne: "KeepNonFailures rs \<noteq> []"
    by (auto simp: KeepNonFailures_def filter_empty_conv)
  have sub: "set (KeepNonFailures rs) \<subseteq> set rs" by (auto simp: KeepNonFailures_def)
  show "\<exists>r\<in>set rs. PickBestResult srt env rs instr cfg = Some (Inr r)"
  proof (cases "RequireDeterminism env cfg")
    case True
    from PickBestResult_first_kept[OF True ne, of srt instr] obtain pre r post where
      "rs = pre @ r # post" "PickBestResult srt env rs instr cfg = Some (Inr r)" by blast
    then show ?thesis by auto
  next
    case False
    from PickBestResult_window[OF c ne False, of instr] obtain best where
      p: "PickBestResult srt env rs instr cfg = Some (Inr best)"
      and f: "find (\<lambda>x. \<forall>y\<in>set (filter (\<lambda>x. FromDurationProto (run_time x) \<le>
          Min ((\<lambda>r. FromDurationProto (run_time r)) ` set (KeepNonFailures rs)) + 2000)
          (srt run_time_less (KeepNonFailures rs))). scratch_bytes x \<le> scratch_bytes y)
          (filter (\<lambda>x. FromDurationProto (run_time x) \<le>
          Min ((\<lambda>r. FromDurationProto (run_time r)) ` set (KeepNonFailures rs)) + 2000)
          (srt run_time_less (KeepNonFailures rs))) = Some best"
      by (elim exE conjE)
    from f have "best \<in> set (srt run_time_less (KeepNonFailures rs))"
      unfolding find_Some_iff by (elim exE conjE) (metis filter_is_subset nth_mem subsetD)
    then have "best \<in> set rs" using sorted_contract_set[OF c] sub by auto
    with p show ?thesis by blast
  qed
next
  show "NoAlgorithmSuppliedInternalError instr \<noteq> AllAlgorithmsFailedInternalError instr rs"
    by (simp add: NoAlgorithmSuppliedInternalError_def AllAlgorithmsFailedInternalError_def
        split: option.splits)
qed

theorem PickBestResult_failure_cases_witness:
  "c_sort_contract insertion_sort run_time_less (KeepNonFailures failed_examples) \<and>
   failed_examples \<noteq> [] \<and> KeepNonFailures failed_examples = [] \<and>
   PickBestResult insertion_sort False failed_examples None \<lparr>xla_gpu_deterministic_ops = False\<rparr>
     = Some (Inl (InternalError
         (''All algorithms failed. Falling back to the default algorithm. Per-algorithm errors:''
          @ [CHR 0x0A] @ ''  oom'' @ [CHR 0x0A] @ ''  redzone''))) \<and>
   c_sort_contract insertion_sort run_time_less (KeepNonFailures []) \<and>
   (\<exists>m. PickBestResult insertion_sort False [] (Some ''gemm.1'') \<lparr>xla_gpu_deterministic_ops = False\<rparr>
          = Some (Inl (InternalError m)) \<and> sublist ''gemm.1'' m)"
proof -
  have k: "KeepNonFailures failed_examples = []"
    by (simp add: KeepNonFailures_def failed_examples_def keep_result_def has_failure_def
        failure_kind_def)
  have h: "c_sort_contract insertion_sort run_time_less (KeepNonFailures failed_examples)"
    unfolding k by (simp add: c_sort_contract_def insertion_sort_def)
  have f: "\<forall>r\<in>set failed_examples. \<exists>f. failure r = Some f \<and> kind f \<noteq> WRONG_RESULT"
    by (simp add: failed_examples_def)
  have n: "failed_examples \<noteq> []" by (simp add: failed_examples_def)
  have m: "AllAlgorithmsFailedInternalError None failed_examples = InternalError
         (''All algorithms failed. Falling back to the default algorithm. Per-algorithm errors:''
          @ [CHR 0x0A] @ ''  oom'' @ [CHR 0x0A] @ ''  redzone'')"
    by (simp add: AllAlgorithmsFailedInternalError_def failed_examples_def failure_msg_def)
  have a: "PickBestResult insertion_sort False failed_examples None
      \<lparr>xla_gpu_deterministic_ops = False\<rparr>
     = Some (Inl (InternalError
         (''All algorithms failed. Falling back to the default algorithm. Per-algorithm errors:''
          @ [CHR 0x0A] @ ''  oom'' @ [CHR 0x0A] @ ''  redzone'')))"
    using h f n m k
      PickBestResult_failure_cases [OF h, of False None "\<lparr>xla_gpu_deterministic_ops = False\<rparr>"]
    by simp
  have e: "c_sort_contract insertion_sort run_time_less (KeepNonFailures [])"
    by (simp add: KeepNonFailures_def c_sort_contract_def insertion_sort_def)
  from PickBestResult_failure_cases
    [OF e, of False "Some ''gemm.1''" "\<lparr>xla_gpu_deterministic_ops = False\<rparr>"]
  have b: "\<exists>m. PickBestResult insertion_sort False [] (Some ''gemm.1'')
      \<lparr>xla_gpu_deterministic_ops = False\<rparr> = Some (Inl (InternalError m)) \<and> sublist ''gemm.1'' m"
    by auto
  from h n k a e b show ?thesis by (intro conjI)
qed

section \<open>Properties of the mutex registry\<close>

lemma fold_max_ge: "(a::nat) \<le> fold max xs a"
proof (induction xs arbitrary: a)
  case Nil
  show ?case by simp
next
  case (Cons x xs)
  have "a \<le> max x a" by simp
  also have "\<dots> \<le> fold max xs (max x a)" by (rule Cons.IH)
  finally show ?case by simp
qed

lemma fold_max_upper: "x \<in> set xs \<Longrightarrow> (x::nat) \<le> fold max xs a"
proof (induction xs arbitrary: a)
  case Nil
  then show ?case by simp
next
  case (Cons y ys)
  show ?case
  proof (cases "x = y")
    case True
    have "x \<le> max y a" using True by simp
    also have "\<dots> \<le> fold max ys (max y a)" by (rule fold_max_ge)
    finally show ?thesis by simp
  next
    case False
    with Cons.prems have "x \<in> set ys" by simp
    then show ?thesis by (simp add: Cons.IH)
  qed
qed

lemma new_node_fresh: "new_node mutexes \<notin> snd ` set mutexes"
proof
  assume "new_node mutexes \<in> snd ` set mutexes"
  then have "new_node mutexes \<in> set (map snd mutexes)" by simp
  then have "new_node mutexes \<le> fold max (map snd mutexes) 0" by (rule fold_max_upper)
  then show False by (simp add: new_node_def)
qed

lemma GetGpuMutex_cases:
  obtains (present) m where "map_of mutexes (platform e, device_ordinal e) = Some m"
      "GetGpuMutex e mutexes = (m, mutexes)"
  | (absent) "map_of mutexes (platform e, device_ordinal e) = None"
      "GetGpuMutex e mutexes =
         (new_node mutexes, mutexes @ [((platform e, device_ordinal e), new_node mutexes)])"
  by (cases "map_of mutexes (platform e, device_ordinal e)")
     (auto simp: GetGpuMutex_def emplace_def Let_def)

lemma GetGpuMutex_inv:
  assumes "registry_inv mutexes"
  shows "registry_inv (snd (GetGpuMutex e mutexes))"
proof (cases rule: GetGpuMutex_cases[where mutexes=mutexes and e=e])
  case (present m)
  with assms show ?thesis by simp
next
  case absent
  from absent(1) have "(platform e, device_ordinal e) \<notin> fst ` set mutexes"
    by (simp add: map_of_eq_None_iff)
  with assms new_node_fresh[of mutexes] absent(2) show ?thesis
    by (simp add: registry_inv_def)
qed

lemma GetGpuMutex_grows: "set mutexes \<subseteq> set (snd (GetGpuMutex e mutexes))"
  by (cases rule: GetGpuMutex_cases[where mutexes=mutexes and e=e]) auto

lemma GetGpuMutex_entry:
  "((platform e, device_ordinal e), fst (GetGpuMutex e mutexes)) \<in> set (snd (GetGpuMutex e mutexes))"
  by (cases rule: GetGpuMutex_cases[where mutexes=mutexes and e=e]) (auto dest: map_of_SomeD)

lemma GetGpuMutex_calls_inv:
  "registry_inv mutexes \<Longrightarrow> registry_inv (GetGpuMutex_calls es mutexes)"
  by (induction es arbitrary: mutexes) (simp_all add: GetGpuMutex_inv)

lemma GetGpuMutex_calls_grows: "set mutexes \<subseteq> set (GetGpuMutex_calls es mutexes)"
proof (induction es arbitrary: mutexes)
  case Nil
  show ?case by simp
next
  case (Cons e es)
  have "set mutexes \<subseteq> set (snd (GetGpuMutex e mutexes))" by (rule GetGpuMutex_grows)
  also have "\<dots> \<subseteq> set (GetGpuMutex_calls es (snd (GetGpuMutex e mutexes)))" by (rule Cons.IH)
  finally show ?case by simp
qed

lemma registry_inv_unique:
  assumes "registry_inv mutexes" "(k1, m1) \<in> set mutexes" "(k2, m2) \<in> set mutexes"
  shows "m1 = m2 \<longleftrightarrow> k1 = k2"
proof
  assume "m1 = m2"
  with assms show "k1 = k2"
    unfolding registry_inv_def
    by (metis distinct_map inj_onD snd_conv fst_conv)
next
  assume "k1 = k2"
  with assms show "m1 = m2"
    unfolding registry_inv_def
    by (metis distinct_map inj_onD snd_conv fst_conv)
qed

text \<open>
  C8. Take any history of calls since the registry was created, a call for executor \<open>a\<close>,
  any calls in between, and a call for executor \<open>b\<close>. The two calls return the same mutex
  object exactly when \<open>a\<close> and \<open>b\<close> have the same platform and device ordinal; and every
  entry of a registry is still there, with the same mutex, after any further calls.
\<close>

theorem GetGpuMutex_identity:
  "(fst (GetGpuMutex b (GetGpuMutex_calls between
          (snd (GetGpuMutex a (GetGpuMutex_calls before [])))))
      = fst (GetGpuMutex a (GetGpuMutex_calls before []))
    \<longleftrightarrow> platform a = platform b \<and> device_ordinal a = device_ordinal b) \<and>
   set (GetGpuMutex_calls before []) \<subseteq> set (GetGpuMutex_calls later (GetGpuMutex_calls before []))"
proof
  define s0 where "s0 = GetGpuMutex_calls before []"
  define s1 where "s1 = snd (GetGpuMutex a s0)"
  define s2 where "s2 = GetGpuMutex_calls between s1"
  define s3 where "s3 = snd (GetGpuMutex b s2)"
  have "registry_inv []" by (simp add: registry_inv_def)
  then have "registry_inv s0" unfolding s0_def by (rule GetGpuMutex_calls_inv)
  then have "registry_inv s1" unfolding s1_def by (rule GetGpuMutex_inv)
  then have "registry_inv s2" unfolding s2_def by (rule GetGpuMutex_calls_inv)
  then have inv: "registry_inv s3" unfolding s3_def by (rule GetGpuMutex_inv)
  have "((platform a, device_ordinal a), fst (GetGpuMutex a s0)) \<in> set s1"
    unfolding s1_def by (rule GetGpuMutex_entry)
  moreover have "set s1 \<subseteq> set s2" unfolding s2_def by (rule GetGpuMutex_calls_grows)
  moreover have "set s2 \<subseteq> set s3" unfolding s3_def by (rule GetGpuMutex_grows)
  ultimately have ea: "((platform a, device_ordinal a), fst (GetGpuMutex a s0)) \<in> set s3"
    by blast
  have eb: "((platform b, device_ordinal b), fst (GetGpuMutex b s2)) \<in> set s3"
    unfolding s3_def by (rule GetGpuMutex_entry)
  have "fst (GetGpuMutex b s2) = fst (GetGpuMutex a s0)
      \<longleftrightarrow> (platform b, device_ordinal b) = (platform a, device_ordinal a)"
    using inv eb ea by (rule registry_inv_unique)
  then show "fst (GetGpuMutex b (GetGpuMutex_calls between
          (snd (GetGpuMutex a (GetGpuMutex_calls before [])))))
      = fst (GetGpuMutex a (GetGpuMutex_calls before []))
    \<longleftrightarrow> platform a = platform b \<and> device_ordinal a = device_ordinal b"
    unfolding s0_def s1_def s2_def by auto
next
  show "set (GetGpuMutex_calls before []) \<subseteq> set (GetGpuMutex_calls later (GetGpuMutex_calls before []))"
    by (rule GetGpuMutex_calls_grows)
qed

section \<open>Properties of thunks\<close>










section \<open>Properties of the handlers\<close>

lemma HandleCopy_layouts:
  assumes "find_instruction (parent st) i = Some copy"
    and "mutable_operand (parent st) copy 0 = Some (oid, operand)"
    and "layout (shape operand) = Some src" and "layout (shape copy) = Some dst"
  shows "HandleCopy host i st =
     (if (memory_space src = host \<and> memory_space dst = kDefaultMemorySpace) \<or>
         (memory_space src = kDefaultMemorySpace \<and> memory_space dst = host)
      then (OkStatus,
            \<lparr>parent = ReplaceAllUsesWith i (unused_id (snd (AddInstruction
                 (CreateCopyStart (MakeTupleShape [shape copy, shape operand, MakeScalarShape U32]) oid)
                 (parent st))))
               (snd (AddInstruction (CreateUnary (shape copy) kCopyDone (unused_id (parent st)))
                 (snd (AddInstruction
                   (CreateCopyStart (MakeTupleShape [shape copy, shape operand, MakeScalarShape U32]) oid)
                   (parent st))))),
             changed' = True\<rparr>)
      else (OkStatus, st))"
  using assms
  by (simp add: HandleCopy_def Let_def AddInstruction_def MarkAsChanged_def)

lemma HandleCopy_missing_layout:
  assumes "find_instruction (parent st) i = Some copy"
    and "mutable_operand (parent st) copy 0 = Some (oid, operand)"
    and "layout (shape operand) = None \<or> layout (shape copy) = None"
  shows "HandleCopy host i st =
     (InternalError ((if layout (shape operand) = None then name operand else name copy) @
        '' does not have a layout.''), st)"
  using assms by (auto simp: HandleCopy_def split: option.splits)

lemma HandleDynamicSlice_status:
  assumes "find_instruction (parent st) i = Some ds"
    and "mutable_operand (parent st) ds 0 = Some (oid, operand)"
  shows "fst (HandleDynamicSlice host i st) =
     (if layout (shape ds) = None then InternalError (name ds @ '' does not have a layout.'')
      else if layout (shape operand) = None
      then InternalError (name ds @ [CHR 0x27] @ ''s operand, '' @ name operand @
             '', does not have a layout.'')
      else OkStatus)"
  using assms
  by (auto simp: HandleDynamicSlice_def CreateAsyncInstructions_def Let_def
      split: option.splits prod.splits sum.splits)


lemmas pass_defs =
  Run_def Accept_def Visit_def HandleCopy_def HandleDynamicSlice_def HandleDynamicUpdateSlice_def
  DefaultAction_def CreateAsyncInstructions_def AddInstruction_def ReplaceAllUsesWith_def
  RemoveInstruction_def replace_operand_def CreateCopyStart_def CreateUnary_def unused_id_def
  mentioned_ids_def find_instruction_def mutable_operand_def MarkAsChanged_def MakeScalarShape_def
  MakeTupleShape_def kDefaultMemorySpace_def Let_def

lemma run_copy_example:
  "Run 5 \<lparr>computations = [copy_computation 5 0]\<rparr> =
     (Inr True,
      \<lparr>computations =
         [\<lparr>instructions =
             [(0, \<lparr>name = ''p0'', opcode = kParameter, shape = f32_4 (Some 5), operands = []\<rparr>),
              (1, \<lparr>name = ''copy.1'', opcode = kCopy, shape = f32_4 (Some 0), operands = [0]\<rparr>),
              (2, \<lparr>name = ''add.2'', opcode = kAdd, shape = f32_4 (Some 0), operands = [4, 4]\<rparr>),
              (3, \<lparr>name = ''copy-start'', opcode = kCopyStart,
                    shape = TupleShape [f32_4 (Some 0), f32_4 (Some 5), ArrayShape U32 [] (Some \<lparr>memory_space = 0\<rparr>)],
                    operands = [0]\<rparr>),
              (4, \<lparr>name = ''copy-done'', opcode = kCopyDone, shape = f32_4 (Some 0), operands = [3]\<rparr>)],
           root_instruction = 2, IsFusionComputation = False\<rparr>]\<rparr>)"
  by (simp add: pass_defs copy_computation_def f32_4_def)

lemma HandleDynamicSlice_no_mutation_on_error:
  assumes "find_instruction (parent st) i = Some ds"
    and "mutable_operand (parent st) ds 0 = Some (oid, operand)"
    and "layout (shape ds) = None \<or> layout (shape operand) = None"
  shows "snd (HandleDynamicSlice host i st) = st"
  using assms by (auto simp: HandleDynamicSlice_def split: option.splits)

lemma HandleDynamicUpdateSlice_status:
  assumes "find_instruction (parent st) i = Some dus"
    and "mutable_operand (parent st) dus 0 = Some (bid, base)"
    and "mutable_operand (parent st) dus 1 = Some (uid, update)"
  shows "fst (HandleDynamicUpdateSlice host i st) =
     (if layout (shape dus) = None then InternalError (name dus @ '' does not have a layout.'')
      else if layout (shape base) = None
      then InternalError (name dus @ [CHR 0x27] @ ''s operand, '' @ name base @
             '', does not have a layout.'')
      else if layout (shape update) = None
      then InternalError (name dus @ [CHR 0x27] @ ''s update, '' @ name update @
             '', does not have a layout.'')
      else if memory_space (the (layout (shape update))) = kDefaultMemorySpace \<and>
              memory_space (the (layout (shape dus))) = host \<and>
              memory_space (the (layout (shape base))) \<noteq> memory_space (the (layout (shape dus)))
      then InternalError (''Unexpected that '' @ name base @ [CHR 0x27] @
             ''s memory space is not the same as the dynamic-update-slice.'')
      else OkStatus)"
  using assms
  by (auto simp: HandleDynamicUpdateSlice_def CreateAsyncInstructions_def Let_def
      split: option.splits prod.splits sum.splits)

lemma HandleDynamicUpdateSlice_no_mutation_on_error:
  assumes "find_instruction (parent st) i = Some dus"
    and "mutable_operand (parent st) dus 0 = Some (bid, base)"
    and "mutable_operand (parent st) dus 1 = Some (uid, update)"
    and "layout (shape dus) = None \<or> layout (shape base) = None \<or> layout (shape update) = None"
  shows "snd (HandleDynamicUpdateSlice host i st) = st"
  using assms by (auto simp: HandleDynamicUpdateSlice_def split: option.splits)

lemma layout_suffix_1: "suffix '' does not have a layout.'' (xs @ '' does not have a layout.'')"
  by (simp add: suffix_def)

lemma layout_suffix_2:
  "suffix '' does not have a layout.''
     (n @ [CHR 0x27] @ ''s operand, '' @ m @ '', does not have a layout.'')"
  unfolding suffix_def by (rule exI[of _ "n @ [CHR 0x27] @ ''s operand, '' @ m @ '',''"]) simp

lemma layout_suffix_2u:
  "suffix '' does not have a layout.''
     (n @ [CHR 0x27] @ ''s update, '' @ m @ '', does not have a layout.'')"
  unfolding suffix_def by (rule exI[of _ "n @ [CHR 0x27] @ ''s update, '' @ m @ '',''"]) simp

lemma layout_suffix_3:
  "\<not> suffix '' does not have a layout.''
     (''Unexpected that '' @ xs @ [CHR 0x27] @
      ''s memory space is not the same as the dynamic-update-slice.'')"
  by (simp add: suffix_to_prefix)

text \<open>
  C10. The layout check of a dynamic-slice covers its result shape and the shape of its
  first operand, and comes before the memory-space gating: the handler fails exactly when
  one of the two has no layout, whatever the memory spaces and whatever the layouts of the
  index operands, and it fails with a missing-layout error and without mutating anything.
  A dynamic-update-slice fails with a missing-layout error exactly when its result, its
  first operand or its update operand has no layout.
\<close>

theorem layout_checks_before_gating:
  "(find_instruction (parent st) i = Some ds \<and>
    mutable_operand (parent st) ds 0 = Some (oid, base) \<longrightarrow>
      (fst (HandleDynamicSlice host i st) \<noteq> OkStatus
         \<longleftrightarrow> \<not> has_layout (shape ds) \<or> \<not> has_layout (shape base)) \<and>
      (fst (HandleDynamicSlice host i st) \<noteq> OkStatus \<longrightarrow>
         (\<exists>m. fst (HandleDynamicSlice host i st) = InternalError m \<and>
              suffix '' does not have a layout.'' m) \<and>
         snd (HandleDynamicSlice host i st) = st)) \<and>
   (find_instruction (parent st) j = Some dus \<and>
    mutable_operand (parent st) dus 0 = Some (bid, dbase) \<and>
    mutable_operand (parent st) dus 1 = Some (uid, update) \<longrightarrow>
      ((\<exists>m. fst (HandleDynamicUpdateSlice host j st) = InternalError m \<and>
            suffix '' does not have a layout.'' m)
         \<longleftrightarrow> \<not> has_layout (shape dus) \<or> \<not> has_layout (shape dbase) \<or>
             \<not> has_layout (shape update)))"
proof (intro conjI impI)
  assume a: "find_instruction (parent st) i = Some ds \<and>
    mutable_operand (parent st) ds 0 = Some (oid, base)"
  then have f: "find_instruction (parent st) i = Some ds"
    and m: "mutable_operand (parent st) ds 0 = Some (oid, base)" by simp_all
  note s = HandleDynamicSlice_status[OF f m, of host]
  show iff: "fst (HandleDynamicSlice host i st) \<noteq> OkStatus
         \<longleftrightarrow> \<not> has_layout (shape ds) \<or> \<not> has_layout (shape base)"
    unfolding s by (simp add: has_layout_def)
  assume e: "fst (HandleDynamicSlice host i st) \<noteq> OkStatus"
  with iff have l: "layout (shape ds) = None \<or> layout (shape base) = None"
    by (simp add: has_layout_def)
  show "\<exists>m. fst (HandleDynamicSlice host i st) = InternalError m \<and>
              suffix '' does not have a layout.'' m"
    unfolding s using l layout_suffix_1 layout_suffix_2 by auto
  show "snd (HandleDynamicSlice host i st) = st"
    using f m l by (rule HandleDynamicSlice_no_mutation_on_error)
next
  assume a: "find_instruction (parent st) j = Some dus \<and>
    mutable_operand (parent st) dus 0 = Some (bid, dbase) \<and>
    mutable_operand (parent st) dus 1 = Some (uid, update)"
  then have f: "find_instruction (parent st) j = Some dus"
    and m0: "mutable_operand (parent st) dus 0 = Some (bid, dbase)"
    and m1: "mutable_operand (parent st) dus 1 = Some (uid, update)" by simp_all
  note s = HandleDynamicUpdateSlice_status[OF f m0 m1, of host]
  show "(\<exists>m. fst (HandleDynamicUpdateSlice host j st) = InternalError m \<and>
            suffix '' does not have a layout.'' m)
         \<longleftrightarrow> \<not> has_layout (shape dus) \<or> \<not> has_layout (shape dbase) \<or>
             \<not> has_layout (shape update)"
    unfolding s using layout_suffix_1 layout_suffix_2 layout_suffix_2u layout_suffix_3
    by (auto simp: has_layout_def)
qed

theorem layout_checks_before_gating_witness:
  "find_instruction copy_then_slice_computation 3 =
     Some \<lparr>name = ''ds.3'', opcode = kDynamicSlice, shape = f32_4 None, operands = [1, 2]\<rparr> \<and>
   mutable_operand copy_then_slice_computation
     \<lparr>name = ''ds.3'', opcode = kDynamicSlice, shape = f32_4 None, operands = [1, 2]\<rparr> 0 =
     Some (1, \<lparr>name = ''copy.1'', opcode = kCopy, shape = f32_4 (Some 0), operands = [0]\<rparr>) \<and>
   fst (HandleDynamicSlice 5 3 \<lparr>parent = copy_then_slice_computation, changed' = False\<rparr>)
     \<noteq> OkStatus \<and>
   find_instruction (update_computation None) 3 =
     Some \<lparr>name = ''dus.3'', opcode = kDynamicUpdateSlice, shape = f32_4 (Some 5),
            operands = [0, 1, 2]\<rparr> \<and>
   (\<exists>m. fst (HandleDynamicUpdateSlice 5 3 \<lparr>parent = update_computation None, changed' = False\<rparr>)
          = InternalError m \<and> suffix '' does not have a layout.'' m)"
proof -
  let ?ds = "\<lparr>name = ''ds.3'', opcode = kDynamicSlice, shape = f32_4 None, operands = [1, 2]\<rparr>"
  let ?dus = "\<lparr>name = ''dus.3'', opcode = kDynamicUpdateSlice, shape = f32_4 (Some 5),
            operands = [0, 1, 2]\<rparr>"
  have f1: "find_instruction (parent \<lparr>parent = copy_then_slice_computation, changed' = False\<rparr>) 3
      = Some ?ds"
    by (simp add: find_instruction_def copy_then_slice_computation_def)
  have m1: "mutable_operand (parent \<lparr>parent = copy_then_slice_computation, changed' = False\<rparr>) ?ds 0
      = Some (1, \<lparr>name = ''copy.1'', opcode = kCopy, shape = f32_4 (Some 0), operands = [0]\<rparr>)"
    by (simp add: mutable_operand_def find_instruction_def copy_then_slice_computation_def)
  have f2: "find_instruction (parent \<lparr>parent = update_computation None, changed' = False\<rparr>) 3
      = Some ?dus"
    by (simp add: find_instruction_def update_computation_def)
  have m2: "mutable_operand (parent \<lparr>parent = update_computation None, changed' = False\<rparr>) ?dus 0
      = Some (0, \<lparr>name = ''p0'', opcode = kParameter, shape = f32_4 (Some 5), operands = []\<rparr>)"
    by (simp add: mutable_operand_def find_instruction_def update_computation_def)
  have m3: "mutable_operand (parent \<lparr>parent = update_computation None, changed' = False\<rparr>) ?dus 1
      = Some (1, \<lparr>name = ''p1'', opcode = kParameter, shape = f32_4 None, operands = []\<rparr>)"
    by (simp add: mutable_operand_def find_instruction_def update_computation_def)
  have l: "\<not> has_layout (f32_4 None)" "has_layout (f32_4 (Some 5))" "has_layout (f32_4 (Some 0))"
    by (simp_all add: has_layout_def f32_4_def)
  from layout_checks_before_gating
    [where st = "\<lparr>parent = copy_then_slice_computation, changed' = False\<rparr>" and i = 3
        and ds = ?ds and oid = 1 and host = 5
        and base = "\<lparr>name = ''copy.1'', opcode = kCopy, shape = f32_4 (Some 0), operands = [0]\<rparr>"]
    f1 m1 l
  have a: "fst (HandleDynamicSlice 5 3 \<lparr>parent = copy_then_slice_computation, changed' = False\<rparr>)
     \<noteq> OkStatus" by simp
  from layout_checks_before_gating
    [where st = "\<lparr>parent = update_computation None, changed' = False\<rparr>" and j = 3
        and dus = ?dus and bid = 0 and uid = 1 and host = 5
        and dbase = "\<lparr>name = ''p0'', opcode = kParameter, shape = f32_4 (Some 5), operands = []\<rparr>"
        and update = "\<lparr>name = ''p1'', opcode = kParameter, shape = f32_4 None, operands = []\<rparr>"]
    f2 m2 m3 l
  have b: "\<exists>m. fst (HandleDynamicUpdateSlice 5 3 \<lparr>parent = update_computation None, changed' = False\<rparr>)
          = InternalError m \<and> suffix '' does not have a layout.'' m" by simp
  from f1 m1 f2 a b show ?thesis by simp
qed

lemma unused_id_greater: "j \<in> set (mentioned_ids c) \<Longrightarrow> j < unused_id c"
  unfolding unused_id_def using fold_max_upper[of j "mentioned_ids c" 0] by simp

lemma id_mentioned: "(j, u) \<in> set (instructions c) \<Longrightarrow> j \<in> set (mentioned_ids c)"
  by (force simp: mentioned_ids_def)

lemma operand_mentioned:
  "(j, u) \<in> set (instructions c) \<Longrightarrow> x \<in> set (operands u) \<Longrightarrow> x \<in> set (mentioned_ids c)"
  by (force simp: mentioned_ids_def)

lemma root_mentioned: "root_instruction c \<in> set (mentioned_ids c)"
  by (simp add: mentioned_ids_def)

lemma find_instruction_in: "find_instruction c j = Some u \<Longrightarrow> (j, u) \<in> set (instructions c)"
  by (simp add: find_instruction_def map_of_SomeD)

lemma mentioned_ids_add:
  "set (mentioned_ids (c\<lparr>instructions := instructions c @ [(s, u)]\<rparr>)) =
     insert s (set (operands u) \<union> set (mentioned_ids c))"
  by (auto simp: mentioned_ids_def)

text \<open>The computation a copy rewrite leaves, written out.\<close>

lemma copy_rewrite_result:
  "ReplaceAllUsesWith i (unused_id (snd (AddInstruction S c)))
     (snd (AddInstruction D (snd (AddInstruction S c)))) =
   c\<lparr>instructions :=
        map (\<lambda>(j, u). (j, replace_operand i (unused_id (snd (AddInstruction S c))) u))
          (instructions c @
             [(unused_id c, S), (unused_id (snd (AddInstruction S c)), D)]),
      root_instruction :=
        (if root_instruction c = i then unused_id (snd (AddInstruction S c))
         else root_instruction c)\<rparr>"
  by (simp add: ReplaceAllUsesWith_def AddInstruction_def Let_def)

lemma second_id_fresh:
  assumes "set (operands S) \<subseteq> set (mentioned_ids c)"
  shows "unused_id c < unused_id (snd (AddInstruction S c))"
    and "j \<in> set (mentioned_ids c) \<Longrightarrow> j < unused_id (snd (AddInstruction S c))"
proof -
  have m: "set (mentioned_ids (snd (AddInstruction S c))) =
      insert (unused_id c) (set (operands S) \<union> set (mentioned_ids c))"
    by (simp add: AddInstruction_def Let_def mentioned_ids_add)
  show "unused_id c < unused_id (snd (AddInstruction S c))"
    by (rule unused_id_greater) (simp add: m)
  show "j \<in> set (mentioned_ids c) \<Longrightarrow> j < unused_id (snd (AddInstruction S c))"
    by (rule unused_id_greater) (simp add: m)
qed

lemma HandleCopy_rewritten:
  assumes f: "find_instruction (parent st) i = Some copy"
    and m: "mutable_operand (parent st) copy 0 = Some (oid, operand)"
    and ls: "layout (shape operand) = Some src" and ld: "layout (shape copy) = Some dst"
    and g: "(memory_space src = host \<and> memory_space dst = kDefaultMemorySpace) \<or>
            (memory_space src = kDefaultMemorySpace \<and> memory_space dst = host)"
  shows "\<exists>s d. s \<notin> set (mentioned_ids (parent st)) \<and> d \<notin> set (mentioned_ids (parent st)) \<and> s \<noteq> d \<and>
     HandleCopy host i st =
       (OkStatus,
        \<lparr>parent = (parent st)
           \<lparr>instructions :=
              map (\<lambda>(j, u). (j, replace_operand i d u)) (instructions (parent st)) @
              [(s, \<lparr>name = ''copy-start'', opcode = kCopyStart,
                    shape = TupleShape [shape copy, shape operand, MakeScalarShape U32],
                    operands = [if oid = i then d else oid]\<rparr>),
               (d, \<lparr>name = ''copy-done'', opcode = kCopyDone, shape = shape copy,
                    operands = [s]\<rparr>)],
            root_instruction :=
              (if root_instruction (parent st) = i then d else root_instruction (parent st))\<rparr>,
         changed' = True\<rparr>)"
proof -
  define S where "S = CreateCopyStart (MakeTupleShape [shape copy, shape operand, MakeScalarShape U32]) oid"
  define s where "s = unused_id (parent st)"
  define d where "d = unused_id (snd (AddInstruction S (parent st)))"
  define D where "D = CreateUnary (shape copy) kCopyDone s"
  from f have ci: "(i, copy) \<in> set (instructions (parent st))" by (rule find_instruction_in)
  from m have "oid \<in> set (operands copy)"
    by (auto simp: mutable_operand_def split: if_splits)
  with ci have om: "oid \<in> set (mentioned_ids (parent st))" by (rule operand_mentioned)
  then have sub: "set (operands S) \<subseteq> set (mentioned_ids (parent st))"
    by (simp add: S_def CreateCopyStart_def)
  have sd: "s < d" unfolding s_def d_def using sub by (rule second_id_fresh(1))
  have s_fresh: "s \<notin> set (mentioned_ids (parent st))"
    unfolding s_def using unused_id_greater[of "unused_id (parent st)" "parent st"] by auto
  have d_fresh: "d \<notin> set (mentioned_ids (parent st))"
    unfolding d_def
    using second_id_fresh(2)[OF sub, of "unused_id (snd (AddInstruction S (parent st)))"] by auto
  from ci have "i \<in> set (mentioned_ids (parent st))" by (rule id_mentioned)
  with s_fresh have si: "s \<noteq> i" by auto
  have "HandleCopy host i st =
      (OkStatus, \<lparr>parent = ReplaceAllUsesWith i d (snd (AddInstruction D (snd (AddInstruction S (parent st))))),
         changed' = True\<rparr>)"
    using HandleCopy_layouts[OF f m ls ld, of host] g
    unfolding S_def s_def d_def D_def by simp
  also have "ReplaceAllUsesWith i d (snd (AddInstruction D (snd (AddInstruction S (parent st))))) =
      (parent st)\<lparr>instructions :=
        map (\<lambda>(j, u). (j, replace_operand i d u))
          (instructions (parent st) @ [(s, S), (d, D)]),
      root_instruction := (if root_instruction (parent st) = i then d else root_instruction (parent st))\<rparr>"
    unfolding d_def s_def by (rule copy_rewrite_result)
  also have "map (\<lambda>(j, u). (j, replace_operand i d u)) (instructions (parent st) @ [(s, S), (d, D)]) =
      map (\<lambda>(j, u). (j, replace_operand i d u)) (instructions (parent st)) @
              [(s, \<lparr>name = ''copy-start'', opcode = kCopyStart,
                    shape = TupleShape [shape copy, shape operand, MakeScalarShape U32],
                    operands = [if oid = i then d else oid]\<rparr>),
               (d, \<lparr>name = ''copy-done'', opcode = kCopyDone, shape = shape copy,
                    operands = [s]\<rparr>)]"
    using si by (simp add: S_def D_def CreateCopyStart_def CreateUnary_def replace_operand_def
        MakeTupleShape_def)
  finally show ?thesis using s_fresh d_fresh sd by blast
qed

lemma map_of_redirect:
  "map_of (map (\<lambda>(j, u). (j, f u)) xs @ ys) i =
     (case map_of xs i of Some u \<Rightarrow> Some (f u) | None \<Rightarrow> map_of ys i)"
  by (induction xs) (auto split: option.splits)

lemma replace_operand_removes: "d \<noteq> i \<Longrightarrow> i \<notin> set (operands (replace_operand i d u))"
  by (auto simp: replace_operand_def)

text \<open>
  What \<open>HandleCopy\<close> leaves for a copy it rewrites: a copy-start node whose result is the
  tuple of the destination shape, the source shape and a \<open>U32\<close> scalar context, with the
  copy's operand as its operand; a copy-done node with the copy-start node as its single
  operand and the copy's original result shape; every consumer of the copy, and the root
  if it was the copy, redirected to the copy-done node. The copy instruction itself is
  still in the computation, with no consumer.
\<close>

lemma HandleCopy_start_done_pair:
  assumes f: "find_instruction (parent st) i = Some copy"
    and m: "mutable_operand (parent st) copy 0 = Some (oid, operand)"
    and ls: "layout (shape operand) = Some src" and ld: "layout (shape copy) = Some dst"
    and g: "(memory_space src = host \<and> memory_space dst = kDefaultMemorySpace) \<or>
            (memory_space src = kDefaultMemorySpace \<and> memory_space dst = host)"
  shows "\<exists>s d. s \<notin> fst ` set (instructions (parent st)) \<and>
           d \<notin> fst ` set (instructions (parent st)) \<and> s \<noteq> d \<and>
     HandleCopy host i st =
       (OkStatus,
        \<lparr>parent = (parent st)
           \<lparr>instructions :=
              map (\<lambda>(j, u). (j, replace_operand i d u)) (instructions (parent st)) @
              [(s, \<lparr>name = ''copy-start'', opcode = kCopyStart,
                    shape = TupleShape [shape copy, shape operand, MakeScalarShape U32],
                    operands = [if oid = i then d else oid]\<rparr>),
               (d, \<lparr>name = ''copy-done'', opcode = kCopyDone, shape = shape copy,
                    operands = [s]\<rparr>)],
            root_instruction :=
              (if root_instruction (parent st) = i then d else root_instruction (parent st))\<rparr>,
         changed' = True\<rparr>) \<and>
     find_instruction (parent (snd (HandleCopy host i st))) i = Some (replace_operand i d copy) \<and>
     (\<forall>(j, u)\<in>set (instructions (parent (snd (HandleCopy host i st)))). i \<notin> set (operands u)) \<and>
     root_instruction (parent (snd (HandleCopy host i st))) \<noteq> i"
proof -
  from HandleCopy_rewritten[OF f m ls ld g] obtain s d where
    s: "s \<notin> set (mentioned_ids (parent st))" and d: "d \<notin> set (mentioned_ids (parent st))"
    and sd: "s \<noteq> d"
    and h: "HandleCopy host i st =
       (OkStatus,
        \<lparr>parent = (parent st)
           \<lparr>instructions :=
              map (\<lambda>(j, u). (j, replace_operand i d u)) (instructions (parent st)) @
              [(s, \<lparr>name = ''copy-start'', opcode = kCopyStart,
                    shape = TupleShape [shape copy, shape operand, MakeScalarShape U32],
                    operands = [if oid = i then d else oid]\<rparr>),
               (d, \<lparr>name = ''copy-done'', opcode = kCopyDone, shape = shape copy,
                    operands = [s]\<rparr>)],
            root_instruction :=
              (if root_instruction (parent st) = i then d else root_instruction (parent st))\<rparr>,
         changed' = True\<rparr>)"
    by (elim exE conjE)
  from f have ci: "(i, copy) \<in> set (instructions (parent st))" by (rule find_instruction_in)
  then have im: "i \<in> set (mentioned_ids (parent st))" by (rule id_mentioned)
  with s d have si: "s \<noteq> i" and di: "d \<noteq> i" by auto
  have ids: "fst ` set (instructions (parent st)) \<subseteq> set (mentioned_ids (parent st))"
    by (auto intro: id_mentioned)
  have fi: "find_instruction (parent (snd (HandleCopy host i st))) i = Some (replace_operand i d copy)"
    using f unfolding h by (simp add: find_instruction_def map_of_redirect del: map_of_append)
  have nc: "\<forall>(j, u)\<in>set (instructions (parent (snd (HandleCopy host i st)))). i \<notin> set (operands u)"
    unfolding h using si di by (auto simp: replace_operand_def)
  have rt: "root_instruction (parent (snd (HandleCopy host i st))) \<noteq> i"
    unfolding h using di by simp
  from s d ids have "s \<notin> fst ` set (instructions (parent st))"
    "d \<notin> fst ` set (instructions (parent st))" by auto
  with sd h fi nc rt show ?thesis by blast
qed

lemma copy_example_facts:
  "find_instruction (parent \<lparr>parent = copy_computation src dst, changed' = ch\<rparr>) 1 =
     Some \<lparr>name = ''copy.1'', opcode = kCopy, shape = f32_4 (Some dst), operands = [0]\<rparr>"
  "mutable_operand (parent \<lparr>parent = copy_computation src dst, changed' = ch\<rparr>)
     \<lparr>name = ''copy.1'', opcode = kCopy, shape = f32_4 (Some dst), operands = [0]\<rparr> 0 =
     Some (0, \<lparr>name = ''p0'', opcode = kParameter, shape = f32_4 (Some src), operands = []\<rparr>)"
  "layout (shape \<lparr>name = ''p0'', opcode = kParameter, shape = f32_4 (Some src), operands = []\<rparr>)
     = Some \<lparr>memory_space = src\<rparr>"
  "layout (shape \<lparr>name = ''copy.1'', opcode = kCopy, shape = f32_4 (Some dst), operands = [0]\<rparr>)
     = Some \<lparr>memory_space = dst\<rparr>"
  by (simp_all add: find_instruction_def mutable_operand_def copy_computation_def f32_4_def)

lemma HandleCopy_start_done_pair_example:
  "find_instruction (copy_computation 5 0) 1 =
     Some \<lparr>name = ''copy.1'', opcode = kCopy, shape = f32_4 (Some 0), operands = [0]\<rparr> \<and>
   mutable_operand (copy_computation 5 0)
     \<lparr>name = ''copy.1'', opcode = kCopy, shape = f32_4 (Some 0), operands = [0]\<rparr> 0 =
     Some (0, \<lparr>name = ''p0'', opcode = kParameter, shape = f32_4 (Some 5), operands = []\<rparr>) \<and>
   fst (HandleCopy 5 1 \<lparr>parent = copy_computation 5 0, changed' = False\<rparr>) = OkStatus \<and>
   root_instruction (parent (snd (HandleCopy 5 1 \<lparr>parent = copy_computation 5 0, changed' = False\<rparr>)))
     \<noteq> 1"
proof -
  have g: "(memory_space \<lparr>memory_space = 5::64 word\<rparr> = 5 \<and>
            memory_space \<lparr>memory_space = 0::64 word\<rparr> = kDefaultMemorySpace) \<or>
           (memory_space \<lparr>memory_space = 5::64 word\<rparr> = kDefaultMemorySpace \<and>
            memory_space \<lparr>memory_space = 0::64 word\<rparr> = 5)"
    by (simp add: kDefaultMemorySpace_def)
  from HandleCopy_start_done_pair
    [OF copy_example_facts(1)[of 5 0 False] copy_example_facts(2)[of 5 0 False]
        copy_example_facts(3)[of 5] copy_example_facts(4)[of 0] g]
  have "fst (HandleCopy 5 1 \<lparr>parent = copy_computation 5 0, changed' = False\<rparr>) = OkStatus"
    and "root_instruction (parent (snd (HandleCopy 5 1 \<lparr>parent = copy_computation 5 0, changed' = False\<rparr>)))
     \<noteq> 1"
    by auto
  with copy_example_facts(1,2)[of 5 0 False] show ?thesis by simp
qed

text \<open>
  C5 (as amended). A copy with layouts on its source and on its destination is rewritten
  into a start/done pair exactly when one of the two memory spaces is the host tag and the
  other is the default (device) memory space. The handler never fails on such a copy; a
  copy it does not rewrite is left untouched with the changed flag as it was. In
  particular, when the host tag is not the default memory space, a copy whose source and
  destination share the same memory space is left untouched.
\<close>

theorem HandleCopy_gating:
  assumes f: "find_instruction (parent st) i = Some copy"
    and m: "mutable_operand (parent st) copy 0 = Some (oid, operand)"
    and ls: "layout (shape operand) = Some src" and ld: "layout (shape copy) = Some dst"
  shows "fst (HandleCopy host i st) = OkStatus \<and>
    (snd (HandleCopy host i st) \<noteq> st \<longleftrightarrow>
       (memory_space src = host \<and> memory_space dst = kDefaultMemorySpace) \<or>
       (memory_space src = kDefaultMemorySpace \<and> memory_space dst = host)) \<and>
    (snd (HandleCopy host i st) \<noteq> st \<longrightarrow>
       changed' (snd (HandleCopy host i st)) \<and>
       map (opcode \<circ> snd) (instructions (parent (snd (HandleCopy host i st)))) =
         map (opcode \<circ> snd) (instructions (parent st)) @ [kCopyStart, kCopyDone]) \<and>
    (memory_space src = memory_space dst \<and> host \<noteq> kDefaultMemorySpace \<longrightarrow>
       HandleCopy host i st = (OkStatus, st))"
proof (cases "(memory_space src = host \<and> memory_space dst = kDefaultMemorySpace) \<or>
       (memory_space src = kDefaultMemorySpace \<and> memory_space dst = host)")
  case True
  from HandleCopy_rewritten[OF f m ls ld True, of] obtain s d where
    h: "HandleCopy host i st =
       (OkStatus,
        \<lparr>parent = (parent st)
           \<lparr>instructions :=
              map (\<lambda>(j, u). (j, replace_operand i d u)) (instructions (parent st)) @
              [(s, \<lparr>name = ''copy-start'', opcode = kCopyStart,
                    shape = TupleShape [shape copy, shape operand, MakeScalarShape U32],
                    operands = [if oid = i then d else oid]\<rparr>),
               (d, \<lparr>name = ''copy-done'', opcode = kCopyDone, shape = shape copy,
                    operands = [s]\<rparr>)],
            root_instruction :=
              (if root_instruction (parent st) = i then d else root_instruction (parent st))\<rparr>,
         changed' = True\<rparr>)"
    by (elim exE conjE)
  have ops: "map (opcode \<circ> snd) (instructions (parent (snd (HandleCopy host i st)))) =
         map (opcode \<circ> snd) (instructions (parent st)) @ [kCopyStart, kCopyDone]"
    unfolding h by (simp add: replace_operand_def comp_def case_prod_beta)
  then have "length (instructions (parent (snd (HandleCopy host i st)))) =
      length (instructions (parent st)) + 2"
    by (metis length_append length_map list.size(3,4) One_nat_def Suc_1 add_Suc_right add_0_right)
  then have ne: "snd (HandleCopy host i st) \<noteq> st" by auto
  have ok: "fst (HandleCopy host i st) = OkStatus" "changed' (snd (HandleCopy host i st))"
    unfolding h by simp_all
  from True have "\<not> (memory_space src = memory_space dst \<and> host \<noteq> kDefaultMemorySpace)" by auto
  with True ne ok ops show ?thesis by blast
next
  case False
  have "HandleCopy host i st = (OkStatus, st)"
    unfolding HandleCopy_layouts[OF f m ls ld, of host] by (simp only: False if_False)
  with False show ?thesis by simp
qed

theorem HandleCopy_gating_witness:
  "find_instruction (copy_computation 5 5) 1 =
     Some \<lparr>name = ''copy.1'', opcode = kCopy, shape = f32_4 (Some 5), operands = [0]\<rparr> \<and>
   mutable_operand (copy_computation 5 5)
     \<lparr>name = ''copy.1'', opcode = kCopy, shape = f32_4 (Some 5), operands = [0]\<rparr> 0 =
     Some (0, \<lparr>name = ''p0'', opcode = kParameter, shape = f32_4 (Some 5), operands = []\<rparr>) \<and>
   HandleCopy 5 1 \<lparr>parent = copy_computation 5 5, changed' = False\<rparr> =
     (OkStatus, \<lparr>parent = copy_computation 5 5, changed' = False\<rparr>) \<and>
   snd (HandleCopy 5 1 \<lparr>parent = copy_computation 0 5, changed' = False\<rparr>) \<noteq>
     \<lparr>parent = copy_computation 0 5, changed' = False\<rparr>"
proof -
  from HandleCopy_gating
    [OF copy_example_facts(1)[of 5 5 False] copy_example_facts(2)[of 5 5 False]
        copy_example_facts(3)[of 5] copy_example_facts(4)[of 5], where host = 5]
  have a: "HandleCopy 5 1 \<lparr>parent = copy_computation 5 5, changed' = False\<rparr> =
     (OkStatus, \<lparr>parent = copy_computation 5 5, changed' = False\<rparr>)"
    by (simp add: kDefaultMemorySpace_def)
  from HandleCopy_gating
    [OF copy_example_facts(1)[of 0 5 False] copy_example_facts(2)[of 0 5 False]
        copy_example_facts(3)[of 0] copy_example_facts(4)[of 5], where host = 5]
  have b: "snd (HandleCopy 5 1 \<lparr>parent = copy_computation 0 5, changed' = False\<rparr>) \<noteq>
     \<lparr>parent = copy_computation 0 5, changed' = False\<rparr>"
    by (simp add: kDefaultMemorySpace_def)
  from a b copy_example_facts(1,2)[of 5 5 False] show ?thesis by simp
qed

theorem copy_gating_counterexample:
  "layout (shape \<lparr>name = ''p0'', opcode = kParameter, shape = f32_4 (Some 5), operands = []\<rparr>)
     = Some \<lparr>memory_space = 5\<rparr> \<and>
   layout (shape \<lparr>name = ''copy.1'', opcode = kCopy, shape = f32_4 (Some 3), operands = [0]\<rparr>)
     = Some \<lparr>memory_space = 3\<rparr> \<and>
   Run 5 \<lparr>computations = [copy_computation 5 3]\<rparr> =
     (Inr False, \<lparr>computations = [copy_computation 5 3]\<rparr>) \<and>
   fst (Run 0 \<lparr>computations = [copy_computation 0 0]\<rparr>) = Inr True"
  by (simp add: pass_defs copy_computation_def f32_4_def)

section \<open>Properties of the walk and of the pass\<close>

lemma map_of_filter_id:
  "map_of (filter (\<lambda>(j, u). j \<noteq> x) xs) j = (if j = x then None else map_of xs j)"
  by (induction xs) auto

lemma find_spliced:
  "find_instruction (spliced rm x s S d D c) j =
     (if rm \<and> j = x then None
      else case find_instruction c j of
             Some u \<Rightarrow> Some (replace_operand x d u)
           | None \<Rightarrow> if j = s then Some (replace_operand x d S)
                     else if j = d then Some (replace_operand x d D) else None)"
proof -
  have app: "map_of (map (\<lambda>(j, u). (j, replace_operand x d u)) (instructions c @ [(s, S), (d, D)])) j =
      (case map_of (instructions c) j of
             Some u \<Rightarrow> Some (replace_operand x d u)
           | None \<Rightarrow> if j = s then Some (replace_operand x d S)
                     else if j = d then Some (replace_operand x d D) else None)"
    using map_of_redirect[of "replace_operand x d" "instructions c"
        "[(s, replace_operand x d S), (d, replace_operand x d D)]" j]
    by (simp split: option.splits)
  show ?thesis
    unfolding find_instruction_def spliced_def
    by (cases rm) (simp_all add: map_of_filter_id app del: map_append map_of_append)
qed

lemma find_None_unmentioned: "j \<notin> set (mentioned_ids c) \<Longrightarrow> find_instruction c j = None"
  unfolding find_instruction_def map_of_eq_None_iff
  by (auto dest: id_mentioned)

lemma replace_operand_fields [simp]:
  "opcode (replace_operand x d u) = opcode u"
  "shape (replace_operand x d u) = shape u"
  "name (replace_operand x d u) = name u"
  "length (operands (replace_operand x d u)) = length (operands u)"
  by (simp_all add: replace_operand_def)

lemma replace_operand_nth:
  "n < length (operands u) \<Longrightarrow>
   operands (replace_operand x d u) ! n = (if operands u ! n = x then d else operands u ! n)"
  by (simp add: replace_operand_def)

lemma operand_layout_spliced:
  assumes ok: "splice_ok c x X s S d D"
    and mem: "set (operands u) \<subseteq> set (mentioned_ids c)"
  shows "operand_layout (spliced rm x s S d D c) (replace_operand x d u) n = operand_layout c u n"
proof (cases "n < length (operands u)")
  case False
  then show ?thesis by (simp add: operand_layout_def mutable_operand_def)
next
  case True
  define y where "y = operands u ! n"
  from ok have fx: "find_instruction c x = Some X"
    and s: "s \<notin> set (mentioned_ids c)" and d: "d \<notin> set (mentioned_ids c)" and sd: "s \<noteq> d"
    and sh: "shape D = shape X"
    by (simp_all add: splice_ok_def)
  from fx have "x \<in> set (mentioned_ids c)"
    by (auto dest: find_instruction_in id_mentioned)
  with s d have xs: "x \<noteq> s" and xd: "x \<noteq> d" by auto
  have fd: "find_instruction c d = None" using d by (rule find_None_unmentioned)
  have lhs: "operand_layout (spliced rm x s S d D c) (replace_operand x d u) n =
      map_option (\<lambda>v. layout (shape v))
        (find_instruction (spliced rm x s S d D c) (if y = x then d else y))"
    using True
    by (simp add: operand_layout_def mutable_operand_def replace_operand_nth y_def
        option.map_comp comp_def)
  have rhs: "operand_layout c u n = map_option (\<lambda>v. layout (shape v)) (find_instruction c y)"
    using True
    by (simp add: operand_layout_def mutable_operand_def y_def option.map_comp comp_def)
  show ?thesis
  proof (cases "y = x")
    case True
    then show ?thesis
      unfolding lhs rhs using fx fd xd sd sh by (simp add: find_spliced)
  next
    case False
    from \<open>n < length (operands u)\<close> have "y \<in> set (operands u)" by (simp add: y_def)
    with mem have "y \<in> set (mentioned_ids c)" by auto
    with s d have "y \<noteq> s" "y \<noteq> d" by auto
    with False show ?thesis
      unfolding lhs rhs by (simp add: find_spliced split: option.splits)
  qed
qed

lemma decide_spliced:
  assumes "splice_ok c x X s S d D" and "set (operands u) \<subseteq> set (mentioned_ids c)"
  shows "decide host (spliced rm x s S d D c) (replace_operand x d u) = decide host c u"
  unfolding decide_def by (simp add: operand_layout_spliced[OF assms])

lemma decide_new_nodes:
  "opcode u \<in> {kCopyStart, kAsyncStart, kCopyDone, kAsyncDone} \<Longrightarrow> decide host c u = Skip"
  by (auto simp: decide_def decide_on_def)

lemma CreateAsyncInstructions_spliced:
  assumes f: "find_instruction c x = Some X"
  shows "\<exists>s S d D. splice_ok c x X s S d D \<and>
           CreateAsyncInstructions x ctx c = (Inr d, spliced True x s S d D c)"
proof -
  define S where "S = \<lparr>name = HloOpcodeString kAsyncStart, opcode = kAsyncStart,
                   shape = MakeTupleShape (shape X # ctx), operands = operands X\<rparr>"
  define s where "s = unused_id c"
  define d where "d = unused_id (snd (AddInstruction S c))"
  define D where "D = \<lparr>name = HloOpcodeString kAsyncDone, opcode = kAsyncDone,
                   shape = shape X, operands = [s]\<rparr>"
  from f have ci: "(x, X) \<in> set (instructions c)" by (rule find_instruction_in)
  then have sub: "set (operands S) \<subseteq> set (mentioned_ids c)"
    by (auto simp: S_def dest: operand_mentioned)
  have sd: "s < d" unfolding s_def d_def using sub by (rule second_id_fresh(1))
  have s_fresh: "s \<notin> set (mentioned_ids c)"
    unfolding s_def using unused_id_greater[of "unused_id c" c] by auto
  have d_fresh: "d \<notin> set (mentioned_ids c)"
    unfolding d_def
    using second_id_fresh(2)[OF sub, of "unused_id (snd (AddInstruction S c))"] by auto
  have ok: "splice_ok c x X s S d D"
    using f s_fresh d_fresh sd by (simp add: splice_ok_def S_def D_def)
  have "CreateAsyncInstructions x ctx c = (Inr d, spliced True x s S d D c)"
    using f
    by (simp add: CreateAsyncInstructions_def Let_def AddInstruction_def S_def D_def s_def d_def
        spliced_def ReplaceAllUsesWith_def RemoveInstruction_def)
  with ok show ?thesis by blast
qed

lemma async_rewrite_matches:
  assumes f: "find_instruction (parent st) x = Some X"
  shows "step_matches RewriteAsync x X st
     (case CreateAsyncInstructions x ctx (parent st) of
        (Inl err, c) \<Rightarrow> (err, st\<lparr>parent := c\<rparr>)
      | (Inr async_done, c) \<Rightarrow> (OkStatus, MarkAsChanged (st\<lparr>parent := c\<rparr>)))"
proof -
  from CreateAsyncInstructions_spliced[OF f, of ctx] obtain s S d D where
    ok: "splice_ok (parent st) x X s S d D"
    and c: "CreateAsyncInstructions x ctx (parent st) = (Inr d, spliced True x s S d D (parent st))"
    by (elim exE conjE)
  have "(case CreateAsyncInstructions x ctx (parent st) of
        (Inl err, c) \<Rightarrow> (err, st\<lparr>parent := c\<rparr>)
      | (Inr async_done, c) \<Rightarrow> (OkStatus, MarkAsChanged (st\<lparr>parent := c\<rparr>))) =
      (OkStatus, \<lparr>parent = spliced True x s S d D (parent st), changed' = True\<rparr>)"
    unfolding c by (simp add: MarkAsChanged_def)
  with ok show ?thesis unfolding step_matches_def by auto
qed

lemma HandleDynamicSlice_step:
  assumes f: "find_instruction (parent st) x = Some X" and oc: "opcode X = kDynamicSlice"
  shows "step_matches (decide host (parent st) X) x X st (HandleDynamicSlice host x st)"
proof (cases "mutable_operand (parent st) X 0")
  case None
  then have "decide host (parent st) X = Fail"
    by (simp add: decide_def decide_on_def oc operand_layout_def)
  moreover have "HandleDynamicSlice host x st = (CheckFailure, st)"
    using f None by (simp add: HandleDynamicSlice_def)
  ultimately show ?thesis by (simp add: step_matches_def)
next
  case (Some p)
  obtain oid operand where p: "p = (oid, operand)" by (cases p)
  note m = Some[unfolded p]
  have ol: "operand_layout (parent st) X 0 = Some (layout (shape operand))"
    using m by (simp add: operand_layout_def)
  show ?thesis
  proof (cases "layout (shape X) = None \<or> layout (shape operand) = None")
    case True
    then have "decide host (parent st) X = Fail"
      by (auto simp: decide_def decide_on_def oc ol split: option.splits)
    moreover have "fst (HandleDynamicSlice host x st) \<noteq> OkStatus"
      using HandleDynamicSlice_status[OF f m, of host] True by auto
    moreover have "snd (HandleDynamicSlice host x st) = st"
      using f m True by (rule HandleDynamicSlice_no_mutation_on_error)
    ultimately show ?thesis by (simp add: step_matches_def)
  next
    case False
    then obtain l l0 where l: "layout (shape X) = Some l" and l0: "layout (shape operand) = Some l0"
      by auto
    show ?thesis
    proof (cases "memory_space l0 = host \<and> memory_space l = kDefaultMemorySpace")
      case True
      then have dec: "decide host (parent st) X = RewriteAsync"
        by (simp add: decide_def decide_on_def oc ol l l0)
      have "HandleDynamicSlice host x st =
          (case CreateAsyncInstructions x [MakeScalarShape U32, MakeScalarShape S32] (parent st) of
             (Inl err, c) \<Rightarrow> (err, st\<lparr>parent := c\<rparr>)
           | (Inr async_done, c) \<Rightarrow> (OkStatus, MarkAsChanged (st\<lparr>parent := c\<rparr>)))"
        using f m l l0 True by (simp add: HandleDynamicSlice_def Let_def)
      then show ?thesis unfolding dec using async_rewrite_matches[OF f] by simp
    next
      case False
      then have "decide host (parent st) X = Skip"
        by (simp add: decide_def decide_on_def oc ol l l0)
      moreover have "HandleDynamicSlice host x st = (OkStatus, st)"
        using f m l l0 False by (auto simp: HandleDynamicSlice_def)
      ultimately show ?thesis by (simp add: step_matches_def)
    qed
  qed
qed

lemma HandleDynamicUpdateSlice_step:
  assumes f: "find_instruction (parent st) x = Some X" and oc: "opcode X = kDynamicUpdateSlice"
  shows "step_matches (decide host (parent st) X) x X st (HandleDynamicUpdateSlice host x st)"
proof (cases "mutable_operand (parent st) X 0 = None \<or> mutable_operand (parent st) X 1 = None")
  case True
  then have "decide host (parent st) X = Fail"
    by (auto simp: decide_def decide_on_def oc operand_layout_def simp del: One_nat_def split: option.splits)
  moreover have "HandleDynamicUpdateSlice host x st = (CheckFailure, st)"
    using f True by (auto simp: HandleDynamicUpdateSlice_def split: option.splits)
  ultimately show ?thesis by (simp add: step_matches_def)
next
  case False
  then obtain bid base uid update where
    m0: "mutable_operand (parent st) X 0 = Some (bid, base)"
    and m1: "mutable_operand (parent st) X 1 = Some (uid, update)" by auto
  have ol: "operand_layout (parent st) X 0 = Some (layout (shape base))"
    "operand_layout (parent st) X 1 = Some (layout (shape update))"
    using m0 m1 by (simp_all add: operand_layout_def)
  show ?thesis
  proof (cases "layout (shape X) = None \<or> layout (shape base) = None \<or>
      layout (shape update) = None")
    case True
    then have "decide host (parent st) X = Fail"
      by (auto simp: decide_def decide_on_def oc ol simp del: One_nat_def split: option.splits)
    moreover have "fst (HandleDynamicUpdateSlice host x st) \<noteq> OkStatus"
      using HandleDynamicUpdateSlice_status[OF f m0 m1, of host] True by auto
    moreover have "snd (HandleDynamicUpdateSlice host x st) = st"
      using f m0 m1 True by (rule HandleDynamicUpdateSlice_no_mutation_on_error)
    ultimately show ?thesis by (simp add: step_matches_def)
  next
    case False
    then obtain l l0 l1 where l: "layout (shape X) = Some l"
      and l0: "layout (shape base) = Some l0" and l1: "layout (shape update) = Some l1"
      by auto
    consider (skip) "memory_space l1 \<noteq> kDefaultMemorySpace \<or> memory_space l \<noteq> host"
      | (mismatch) "memory_space l1 = kDefaultMemorySpace" "memory_space l = host"
          "memory_space l0 \<noteq> memory_space l"
      | (rewrite) "memory_space l1 = kDefaultMemorySpace" "memory_space l = host"
          "memory_space l0 = memory_space l"
      by blast
    then show ?thesis
    proof cases
      case skip
      then have "decide host (parent st) X = Skip"
        by (auto simp: decide_def decide_on_def oc ol l l0 l1 simp del: One_nat_def)
      moreover have "HandleDynamicUpdateSlice host x st = (OkStatus, st)"
        using f m0 m1 l l0 l1 skip by (auto simp: HandleDynamicUpdateSlice_def)
      ultimately show ?thesis by (simp add: step_matches_def)
    next
      case mismatch
      then have "decide host (parent st) X = Fail"
        by (simp add: decide_def decide_on_def oc ol l l0 l1 del: One_nat_def)
      moreover have "HandleDynamicUpdateSlice host x st =
          (InternalError (''Unexpected that '' @ name base @ [CHR 0x27] @
             ''s memory space is not the same as the dynamic-update-slice.''), st)"
        using f m0 m1 l l0 l1 mismatch by (simp add: HandleDynamicUpdateSlice_def)
      ultimately show ?thesis by (simp add: step_matches_def)
    next
      case rewrite
      then have dec: "decide host (parent st) X = RewriteAsync"
        by (simp add: decide_def decide_on_def oc ol l l0 l1 del: One_nat_def)
      have "HandleDynamicUpdateSlice host x st =
          (case CreateAsyncInstructions x [MakeScalarShape U32] (parent st) of
             (Inl err, c) \<Rightarrow> (err, st\<lparr>parent := c\<rparr>)
           | (Inr async_done, c) \<Rightarrow> (OkStatus, MarkAsChanged (st\<lparr>parent := c\<rparr>)))"
        using f m0 m1 l l0 l1 rewrite by (simp add: HandleDynamicUpdateSlice_def Let_def)
      then show ?thesis unfolding dec using async_rewrite_matches[OF f] by simp
    qed
  qed
qed

lemma HandleCopy_step:
  assumes f: "find_instruction (parent st) x = Some X" and oc: "opcode X = kCopy"
  shows "step_matches (decide host (parent st) X) x X st (HandleCopy host x st)"
proof (cases "mutable_operand (parent st) X 0")
  case None
  then have "decide host (parent st) X = Fail"
    by (simp add: decide_def decide_on_def oc operand_layout_def)
  moreover have "HandleCopy host x st = (CheckFailure, st)"
    using f None by (simp add: HandleCopy_def)
  ultimately show ?thesis by (simp add: step_matches_def)
next
  case (Some p)
  obtain oid operand where p: "p = (oid, operand)" by (cases p)
  note m = Some[unfolded p]
  have ol: "operand_layout (parent st) X 0 = Some (layout (shape operand))"
    using m by (simp add: operand_layout_def)
  show ?thesis
  proof (cases "layout (shape operand) = None \<or> layout (shape X) = None")
    case True
    then have "decide host (parent st) X = Fail"
      by (auto simp: decide_def decide_on_def oc ol split: option.splits)
    moreover note HandleCopy_missing_layout[OF f m True, of host]
    ultimately show ?thesis by (simp add: step_matches_def)
  next
    case False
    then obtain l l0 where l: "layout (shape X) = Some l" and l0: "layout (shape operand) = Some l0"
      by auto
    show ?thesis
    proof (cases "(memory_space l0 = host \<and> memory_space l = kDefaultMemorySpace) \<or>
                  (memory_space l0 = kDefaultMemorySpace \<and> memory_space l = host)")
      case False
      then have "decide host (parent st) X = Skip"
        by (simp add: decide_def decide_on_def oc ol l l0)
      moreover have "HandleCopy host x st = (OkStatus, st)"
        unfolding HandleCopy_layouts[OF f m l0 l, of host] by (simp only: False if_False)
      ultimately show ?thesis by (simp add: step_matches_def)
    next
      case True
      then have dec: "decide host (parent st) X = RewriteCopy"
        by (simp add: decide_def decide_on_def oc ol l l0)
      from HandleCopy_rewritten[OF f m l0 l True] obtain s d where
        s: "s \<notin> set (mentioned_ids (parent st))" and d: "d \<notin> set (mentioned_ids (parent st))"
        and sd: "s \<noteq> d"
        and h: "HandleCopy host x st =
         (OkStatus,
          \<lparr>parent = (parent st)
             \<lparr>instructions :=
                map (\<lambda>(j, u). (j, replace_operand x d u)) (instructions (parent st)) @
                [(s, \<lparr>name = ''copy-start'', opcode = kCopyStart,
                      shape = TupleShape [shape X, shape operand, MakeScalarShape U32],
                      operands = [if oid = x then d else oid]\<rparr>),
                 (d, \<lparr>name = ''copy-done'', opcode = kCopyDone, shape = shape X,
                      operands = [s]\<rparr>)],
              root_instruction :=
                (if root_instruction (parent st) = x then d else root_instruction (parent st))\<rparr>,
           changed' = True\<rparr>)"
        by (elim exE conjE)
      define S where "S = \<lparr>name = ''copy-start'', opcode = kCopyStart,
                      shape = TupleShape [shape X, shape operand, MakeScalarShape U32],
                      operands = [oid]\<rparr>"
      define D where "D = \<lparr>name = ''copy-done'', opcode = kCopyDone, shape = shape X,
                      operands = [s]\<rparr>"
      from f have "x \<in> set (mentioned_ids (parent st))"
        by (auto dest: find_instruction_in id_mentioned)
      with s have sx: "s \<noteq> x" by auto
      have ok: "splice_ok (parent st) x X s S d D"
        using f s d sd by (simp add: splice_ok_def S_def D_def)
      have "HandleCopy host x st =
          (OkStatus, \<lparr>parent = spliced False x s S d D (parent st), changed' = True\<rparr>)"
        unfolding h using sx by (simp add: spliced_def S_def D_def replace_operand_def)
      with ok show ?thesis unfolding dec step_matches_def by auto
    qed
  qed
qed

lemma Visit_step:
  assumes f: "find_instruction (parent st) x = Some X"
  shows "step_matches (decide host (parent st) X) x X st (Visit host x st)"
proof -
  consider (ds) "opcode X = kDynamicSlice" | (dus) "opcode X = kDynamicUpdateSlice"
    | (copy) "opcode X = kCopy"
    | (other) "opcode X \<noteq> kDynamicSlice" "opcode X \<noteq> kDynamicUpdateSlice" "opcode X \<noteq> kCopy"
    by blast
  then show ?thesis
  proof cases
    case ds
    then have "Visit host x st = HandleDynamicSlice host x st" using f by (simp add: Visit_def)
    then show ?thesis using HandleDynamicSlice_step[OF f ds] by simp
  next
    case dus
    then have "Visit host x st = HandleDynamicUpdateSlice host x st"
      using f by (simp add: Visit_def)
    then show ?thesis using HandleDynamicUpdateSlice_step[OF f dus] by simp
  next
    case copy
    then have "Visit host x st = HandleCopy host x st" using f by (simp add: Visit_def)
    then show ?thesis using HandleCopy_step[OF f copy] by simp
  next
    case other
    then have "Visit host x st = (OkStatus, st)"
      using f by (cases "opcode X") (simp_all add: Visit_def DefaultAction_def)
    moreover have "decide host (parent st) X = Skip"
      using other by (cases "opcode X") (simp_all add: decide_def decide_on_def)
    ultimately show ?thesis by (simp add: step_matches_def)
  qed
qed

lemma VisitAll_Cons_ok:
  assumes "VisitAll host (x # js) st = (OkStatus, st')"
  obtains st1 where "Visit host x st = (OkStatus, st1)" "VisitAll host js st1 = (OkStatus, st')"
proof -
  obtain s st1 where v: "Visit host x st = (s, st1)" by (cases "Visit host x st")
  show ?thesis
  proof (cases "s = OkStatus")
    case True
    with v assms have "VisitAll host js st1 = (OkStatus, st')" by simp
    with v True that show ?thesis by simp
  next
    case False
    with v have "VisitAll host (x # js) st = (s, st1)" by (cases s) simp_all
    with assms False show ?thesis by simp
  qed
qed

lemma Visit_ok_present:
  assumes "Visit host x st = (OkStatus, st1)"
  obtains X where "find_instruction (parent st) x = Some X"
  using assms by (cases "find_instruction (parent st) x") (simp_all add: Visit_def)

lemma spliced_lookup_cases:
  assumes ok: "splice_ok c x X s S d D"
    and f: "find_instruction (spliced rm x s S d D c) j = Some u'"
  obtains (new) "opcode u' \<in> {kCopyStart, kAsyncStart, kCopyDone, kAsyncDone}"
    | (old) u where "find_instruction c j = Some u" "u' = replace_operand x d u" "\<not> (rm \<and> j = x)"
proof (cases "find_instruction c j")
  case None
  with f have "(j = s \<and> u' = replace_operand x d S) \<or> (j = d \<and> u' = replace_operand x d D)"
    unfolding find_spliced by (auto split: if_splits)
  with ok have "opcode u' \<in> {kCopyStart, kAsyncStart, kCopyDone, kAsyncDone}"
    by (auto simp: splice_ok_def)
  then show ?thesis by (rule new)
next
  case (Some u)
  with f have "u' = replace_operand x d u" "\<not> (rm \<and> j = x)"
    unfolding find_spliced by (auto split: if_splits)
  with Some show ?thesis by (rule old)
qed

lemma spliced_lookup_old:
  assumes "find_instruction c j = Some u" "\<not> (rm \<and> j = x)"
  shows "find_instruction (spliced rm x s S d D c) j = Some (replace_operand x d u)"
  using assms unfolding find_spliced by auto

lemma found_operands_mentioned:
  "find_instruction c j = Some u \<Longrightarrow> set (operands u) \<subseteq> set (mentioned_ids c)"
  by (auto dest: find_instruction_in operand_mentioned)

lemma decide_after_splice:
  assumes ok: "splice_ok c x X s S d D"
    and f: "find_instruction (spliced rm x s S d D c) j = Some u'"
  shows "decide host (spliced rm x s S d D c) u' = Skip \<or>
         (\<exists>u. find_instruction c j = Some u \<and> \<not> (rm \<and> j = x) \<and>
              decide host (spliced rm x s S d D c) u' = decide host c u)"
  using ok f
proof (cases rule: spliced_lookup_cases)
  case new
  then show ?thesis by (simp add: decide_new_nodes)
next
  case (old u)
  from old(1) have "set (operands u) \<subseteq> set (mentioned_ids c)" by (rule found_operands_mentioned)
  from decide_spliced[OF ok this, of host rm] old show ?thesis by auto
qed

lemma VisitAll_all_skip:
  assumes "\<forall>j\<in>set js. \<exists>u. find_instruction (parent st) j = Some u \<and> decide host (parent st) u = Skip"
  shows "VisitAll host js st = (OkStatus, st)"
  using assms
proof (induction js)
  case Nil
  show ?case by simp
next
  case (Cons x js)
  then obtain X where f: "find_instruction (parent st) x = Some X"
    and d: "decide host (parent st) X = Skip" by auto
  from Visit_step[OF f, of host] d have "Visit host x st = (OkStatus, st)"
    by (simp add: step_matches_def)
  with Cons show ?case by simp
qed

lemma VisitAll_settles:
  assumes "VisitAll host js st = (OkStatus, st')"
    and "\<forall>j u. find_instruction (parent st) j = Some u \<longrightarrow> j \<notin> set js \<longrightarrow>
           decide host (parent st) u = Skip"
    and "\<forall>j u. find_instruction (parent st) j = Some u \<longrightarrow> decide host (parent st) u \<noteq> RewriteCopy"
  shows "\<forall>j u. find_instruction (parent st') j = Some u \<longrightarrow> decide host (parent st') u = Skip"
  using assms
proof (induction js arbitrary: st)
  case Nil
  then show ?case by simp
next
  case (Cons x js)
  from Cons.prems(1) obtain st1 where
    v: "Visit host x st = (OkStatus, st1)" and r: "VisitAll host js st1 = (OkStatus, st')"
    by (rule VisitAll_Cons_ok)
  from v obtain X where f: "find_instruction (parent st) x = Some X" by (rule Visit_ok_present)
  note sm = Visit_step[OF f, of host, unfolded v]
  from Cons.prems(3) f have nc: "decide host (parent st) X \<noteq> RewriteCopy" by blast
  show ?case
  proof (cases "decide host (parent st) X")
    case Skip
    with sm have "st1 = st" by (simp add: step_matches_def)
    moreover have "\<forall>j u. find_instruction (parent st) j = Some u \<longrightarrow> j \<notin> set js \<longrightarrow>
           decide host (parent st) u = Skip"
      using Cons.prems(2) f Skip by (metis option.inject set_ConsD)
    ultimately show ?thesis using Cons.IH[of st] r Cons.prems(3) by blast
  next
    case Fail
    with sm show ?thesis by (simp add: step_matches_def)
  next
    case RewriteCopy
    with nc show ?thesis by simp
  next
    case RewriteAsync
    with sm obtain s S d D where ok: "splice_ok (parent st) x X s S d D"
      and st1: "st1 = \<lparr>parent = spliced True x s S d D (parent st), changed' = True\<rparr>"
      by (auto simp: step_matches_def)
    have p1: "\<forall>j u. find_instruction (parent st1) j = Some u \<longrightarrow> j \<notin> set js \<longrightarrow>
           decide host (parent st1) u = Skip"
    proof (intro allI impI)
      fix j u'
      assume a: "find_instruction (parent st1) j = Some u'" and nj: "j \<notin> set js"
      from a have a': "find_instruction (spliced True x s S d D (parent st)) j = Some u'"
        by (simp add: st1)
      from decide_after_splice[OF ok a', of host]
      show "decide host (parent st1) u' = Skip"
      proof
        assume "decide host (spliced True x s S d D (parent st)) u' = Skip"
        then show ?thesis by (simp add: st1)
      next
        assume "\<exists>u. find_instruction (parent st) j = Some u \<and> \<not> (True \<and> j = x) \<and>
              decide host (spliced True x s S d D (parent st)) u' = decide host (parent st) u"
        then obtain u where u: "find_instruction (parent st) j = Some u" "j \<noteq> x"
          "decide host (spliced True x s S d D (parent st)) u' = decide host (parent st) u"
          by auto
        from u(2) nj have "j \<notin> set (x # js)" by simp
        with Cons.prems(2) u(1) have "decide host (parent st) u = Skip" by blast
        with u(3) show ?thesis by (simp add: st1)
      qed
    qed
    have p2: "\<forall>j u. find_instruction (parent st1) j = Some u \<longrightarrow>
        decide host (parent st1) u \<noteq> RewriteCopy"
    proof (intro allI impI)
      fix j u'
      assume a: "find_instruction (parent st1) j = Some u'"
      then have a': "find_instruction (spliced True x s S d D (parent st)) j = Some u'"
        by (simp add: st1)
      from decide_after_splice[OF ok a', of host]
      show "decide host (parent st1) u' \<noteq> RewriteCopy"
      proof
        assume "decide host (spliced True x s S d D (parent st)) u' = Skip"
        then show ?thesis by (simp add: st1)
      next
        assume "\<exists>u. find_instruction (parent st) j = Some u \<and> \<not> (True \<and> j = x) \<and>
              decide host (spliced True x s S d D (parent st)) u' = decide host (parent st) u"
        then obtain u where u: "find_instruction (parent st) j = Some u"
          "decide host (spliced True x s S d D (parent st)) u' = decide host (parent st) u"
          by auto
        with Cons.prems(3) show ?thesis by (simp add: st1)
      qed
    qed
    from Cons.IH[OF r p1 p2] show ?thesis .
  qed
qed

lemma transfer_copy_decide: "transfer_copy host c u \<longleftrightarrow> decide host c u = RewriteCopy"
proof (cases "opcode u = kCopy")
  case False
  then show ?thesis
    by (cases "opcode u") (simp_all add: transfer_copy_def decide_def decide_on_def split: option.splits)
next
  case True
  then show ?thesis
    by (auto simp: transfer_copy_def decide_def decide_on_def operand_layout_def
        split: option.splits)
qed

lemma Visit_fusion_flag:
  assumes "Visit host x st = (OkStatus, st1)"
  shows "IsFusionComputation (parent st1) = IsFusionComputation (parent st)"
proof -
  from assms obtain X where f: "find_instruction (parent st) x = Some X"
    by (rule Visit_ok_present)
  from Visit_step[OF f, of host, unfolded assms] show ?thesis
    by (cases "decide host (parent st) X") (auto simp: step_matches_def spliced_def)
qed

lemma VisitAll_fusion_flag:
  "VisitAll host js st = (OkStatus, st') \<Longrightarrow>
   IsFusionComputation (parent st') = IsFusionComputation (parent st)"
proof (induction js arbitrary: st)
  case Nil
  then show ?case by simp
next
  case (Cons x js)
  from Cons.prems obtain st1 where
    v: "Visit host x st = (OkStatus, st1)" and r: "VisitAll host js st1 = (OkStatus, st')"
    by (rule VisitAll_Cons_ok)
  from Cons.IH[OF r] Visit_fusion_flag[OF v] show ?case by simp
qed

lemma found_in_ids: "find_instruction c j = Some u \<Longrightarrow> j \<in> set (map fst (instructions c))"
  by (force dest: find_instruction_in)

lemma Accept_settles:
  assumes "Accept host \<lparr>parent = c, changed' = ch\<rparr> = (OkStatus, st')"
    and "\<forall>j u. find_instruction c j = Some u \<longrightarrow> decide host c u \<noteq> RewriteCopy"
  shows "settled host (parent st')"
  unfolding settled_def
proof (rule VisitAll_settles)
  show "VisitAll host (map fst (instructions c)) \<lparr>parent = c, changed' = ch\<rparr> = (OkStatus, st')"
    using assms(1) by (simp add: Accept_def)
  show "\<forall>j u. find_instruction (parent \<lparr>parent = c, changed' = ch\<rparr>) j = Some u \<longrightarrow>
      j \<notin> set (map fst (instructions c)) \<longrightarrow>
      decide host (parent \<lparr>parent = c, changed' = ch\<rparr>) u = Skip"
    using found_in_ids by fastforce
  show "\<forall>j u. find_instruction (parent \<lparr>parent = c, changed' = ch\<rparr>) j = Some u \<longrightarrow>
      decide host (parent \<lparr>parent = c, changed' = ch\<rparr>) u \<noteq> RewriteCopy"
    using assms(2) by simp
qed

lemma Accept_settled:
  assumes "settled host c"
  shows "Accept host \<lparr>parent = c, changed' = ch\<rparr> = (OkStatus, \<lparr>parent = c, changed' = ch\<rparr>)"
  unfolding Accept_def
proof (rule VisitAll_all_skip)
  show "\<forall>j\<in>set (map fst (instructions (parent \<lparr>parent = c, changed' = ch\<rparr>))).
       \<exists>u. find_instruction (parent \<lparr>parent = c, changed' = ch\<rparr>) j = Some u \<and>
           decide host (parent \<lparr>parent = c, changed' = ch\<rparr>) u = Skip"
  proof
    fix j
    assume "j \<in> set (map fst (instructions (parent \<lparr>parent = c, changed' = ch\<rparr>)))"
    then have "j \<in> fst ` set (instructions c)" by simp
    then obtain u where u: "find_instruction c j = Some u"
      unfolding find_instruction_def by (metis map_of_eq_None_iff not_Some_eq)
    with assms have "decide host c u = Skip" by (simp add: settled_def)
    with u show "\<exists>u. find_instruction (parent \<lparr>parent = c, changed' = ch\<rparr>) j = Some u \<and>
           decide host (parent \<lparr>parent = c, changed' = ch\<rparr>) u = Skip" by simp
  qed
qed

lemma RunComputations_second:
  assumes "RunComputations host cs ch = (OkStatus, cs', ch')"
    and "\<forall>c\<in>set cs. \<not> IsFusionComputation c \<longrightarrow>
           (\<forall>j u. find_instruction c j = Some u \<longrightarrow> decide host c u \<noteq> RewriteCopy)"
  shows "RunComputations host cs' ch2 = (OkStatus, cs', ch2)"
  using assms
proof (induction cs arbitrary: ch cs' ch' ch2)
  case Nil
  then show ?case by simp
next
  case (Cons c cs)
  show ?case
  proof (cases "IsFusionComputation c")
    case True
    obtain s rest' ch1 where r: "RunComputations host cs ch = (s, rest', ch1)"
      by (cases "RunComputations host cs ch") auto
    with Cons.prems(1) True have s: "s = OkStatus" and cs': "cs' = c # rest'" by simp_all
    from Cons.IH[OF r[unfolded s], of ch2] Cons.prems(2)
    have "RunComputations host rest' ch2 = (OkStatus, rest', ch2)" by simp
    with True cs' show ?thesis by simp
  next
    case False
    obtain s st where a: "Accept host \<lparr>parent = c, changed' = ch\<rparr> = (s, st)"
      by (cases "Accept host \<lparr>parent = c, changed' = ch\<rparr>")
    have sok: "s = OkStatus"
    proof (rule ccontr)
      assume "s \<noteq> OkStatus"
      with a False have "RunComputations host (c # cs) ch = (s, parent st # cs, changed' st)"
        by (cases s) simp_all
      with Cons.prems(1) \<open>s \<noteq> OkStatus\<close> show False by simp
    qed
    obtain s2 rest' ch1 where r: "RunComputations host cs (changed' st) = (s2, rest', ch1)"
      by (cases "RunComputations host cs (changed' st)") auto
    with Cons.prems(1) False a sok have s2: "s2 = OkStatus" and cs': "cs' = parent st # rest'"
      by simp_all
    from Cons.prems(2) False
    have nc: "\<forall>j u. find_instruction c j = Some u \<longrightarrow> decide host c u \<noteq> RewriteCopy" by simp
    from Accept_settles[OF a[unfolded sok] nc] have se: "settled host (parent st)" .
    have ff: "\<not> IsFusionComputation (parent st)"
      using VisitAll_fusion_flag[of host "map fst (instructions c)" "\<lparr>parent = c, changed' = ch\<rparr>" st]
        a sok False by (simp add: Accept_def)
    from Cons.IH[OF r[unfolded s2], of ch2] Cons.prems(2)
    have "RunComputations host rest' ch2 = (OkStatus, rest', ch2)" by simp
    with Accept_settled[OF se, of ch2] ff cs' show ?thesis by simp
  qed
qed

lemma run_slice_example:
  "Run 5 \<lparr>computations = [slice_computation]\<rparr> =
     (Inr True,
      \<lparr>computations =
         [\<lparr>instructions =
             [(0, \<lparr>name = ''p0'', opcode = kParameter, shape = f32_4 (Some 5), operands = []\<rparr>),
              (1, \<lparr>name = ''i'', opcode = kConstant, shape = ArrayShape S32 [] None, operands = []\<rparr>),
              (3, \<lparr>name = ''add.3'', opcode = kAdd, shape = f32_4 (Some 0), operands = [5, 5]\<rparr>),
              (4, \<lparr>name = ''async-start'', opcode = kAsyncStart,
                    shape = TupleShape [f32_4 (Some 0), ArrayShape U32 [] (Some \<lparr>memory_space = 0\<rparr>),
                                        ArrayShape S32 [] (Some \<lparr>memory_space = 0\<rparr>)],
                    operands = [0, 1]\<rparr>),
              (5, \<lparr>name = ''async-done'', opcode = kAsyncDone, shape = f32_4 (Some 0),
                    operands = [4]\<rparr>)],
           root_instruction = 3, IsFusionComputation = False\<rparr>]\<rparr>)"
  by (simp add: pass_defs slice_computation_def f32_4_def)

text \<open>
  C2. The handler at a copy from host memory (space 5) into device memory (space 0):
  \<open>p0\<close> is a parameter in host memory, \<open>copy.1\<close> copies it, \<open>add.2\<close>, the root, consumes
  the copy twice. \<open>HandleCopy\<close> adds the copy-start node 3 and the copy-done node 4 and
  redirects \<open>add.2\<close> to the copy-done node, and \<open>copy.1\<close> is still an instruction of the
  computation when the handler returns and when the pass returns: the original copy
  instruction is not removed from the graph. The dynamic-slice \<open>ds.2\<close> that the pass
  rewrites through \<open>CreateAsyncInstructions\<close> is gone after the pass.
\<close>

theorem rewritten_copy_stays_in_graph:
  "HandleCopy 5 1 \<lparr>parent = copy_computation 5 0, changed' = False\<rparr> =
     (OkStatus,
      \<lparr>parent =
         \<lparr>instructions =
            [(0, \<lparr>name = ''p0'', opcode = kParameter, shape = f32_4 (Some 5), operands = []\<rparr>),
             (1, \<lparr>name = ''copy.1'', opcode = kCopy, shape = f32_4 (Some 0), operands = [0]\<rparr>),
             (2, \<lparr>name = ''add.2'', opcode = kAdd, shape = f32_4 (Some 0), operands = [4, 4]\<rparr>),
             (3, \<lparr>name = ''copy-start'', opcode = kCopyStart,
                   shape = TupleShape [f32_4 (Some 0), f32_4 (Some 5), ArrayShape U32 [] (Some \<lparr>memory_space = 0\<rparr>)],
                   operands = [0]\<rparr>),
             (4, \<lparr>name = ''copy-done'', opcode = kCopyDone, shape = f32_4 (Some 0), operands = [3]\<rparr>)],
          root_instruction = 2, IsFusionComputation = False\<rparr>,
       changed' = True\<rparr>) \<and>
   fst (Run 5 \<lparr>computations = [copy_computation 5 0]\<rparr>) = Inr True \<and>
   map (\<lambda>c. find_instruction c 1) (computations (snd (Run 5 \<lparr>computations = [copy_computation 5 0]\<rparr>)))
     = [Some \<lparr>name = ''copy.1'', opcode = kCopy, shape = f32_4 (Some 0), operands = [0]\<rparr>] \<and>
   fst (Run 5 \<lparr>computations = [slice_computation]\<rparr>) = Inr True \<and>
   map (\<lambda>c. find_instruction c 2) (computations (snd (Run 5 \<lparr>computations = [slice_computation]\<rparr>)))
     = [None]"
proof (intro conjI)
  show "HandleCopy 5 1 \<lparr>parent = copy_computation 5 0, changed' = False\<rparr> =
     (OkStatus,
      \<lparr>parent =
         \<lparr>instructions =
            [(0, \<lparr>name = ''p0'', opcode = kParameter, shape = f32_4 (Some 5), operands = []\<rparr>),
             (1, \<lparr>name = ''copy.1'', opcode = kCopy, shape = f32_4 (Some 0), operands = [0]\<rparr>),
             (2, \<lparr>name = ''add.2'', opcode = kAdd, shape = f32_4 (Some 0), operands = [4, 4]\<rparr>),
             (3, \<lparr>name = ''copy-start'', opcode = kCopyStart,
                   shape = TupleShape [f32_4 (Some 0), f32_4 (Some 5), ArrayShape U32 [] (Some \<lparr>memory_space = 0\<rparr>)],
                   operands = [0]\<rparr>),
             (4, \<lparr>name = ''copy-done'', opcode = kCopyDone, shape = f32_4 (Some 0), operands = [3]\<rparr>)],
          root_instruction = 2, IsFusionComputation = False\<rparr>,
       changed' = True\<rparr>)"
    by (simp add: pass_defs copy_computation_def f32_4_def)
  show "fst (Run 5 \<lparr>computations = [copy_computation 5 0]\<rparr>) = Inr True"
    unfolding run_copy_example by simp
  show "map (\<lambda>c. find_instruction c 1)
      (computations (snd (Run 5 \<lparr>computations = [copy_computation 5 0]\<rparr>)))
     = [Some \<lparr>name = ''copy.1'', opcode = kCopy, shape = f32_4 (Some 0), operands = [0]\<rparr>]"
    unfolding run_copy_example by (simp add: find_instruction_def)
  show "fst (Run 5 \<lparr>computations = [slice_computation]\<rparr>) = Inr True"
    unfolding run_slice_example by simp
  show "map (\<lambda>c. find_instruction c 2)
      (computations (snd (Run 5 \<lparr>computations = [slice_computation]\<rparr>))) = [None]"
    unfolding run_slice_example by (simp add: find_instruction_def)
qed

text \<open>
  C3. The pass run twice on the same program: the first run succeeds and returns
  changed = true; the second run, on the program the first run left, meets \<open>copy.1\<close> again,
  rewrites it again into the copy-start node 5 and the copy-done node 6, which nothing
  consumes, and returns changed = true.
\<close>

theorem second_run_rewrites_copy_again:
  "fst (Run 5 \<lparr>computations = [copy_computation 5 0]\<rparr>) = Inr True \<and>
   Run 5 (snd (Run 5 \<lparr>computations = [copy_computation 5 0]\<rparr>)) =
     (Inr True,
      \<lparr>computations =
         [\<lparr>instructions =
             [(0, \<lparr>name = ''p0'', opcode = kParameter, shape = f32_4 (Some 5), operands = []\<rparr>),
              (1, \<lparr>name = ''copy.1'', opcode = kCopy, shape = f32_4 (Some 0), operands = [0]\<rparr>),
              (2, \<lparr>name = ''add.2'', opcode = kAdd, shape = f32_4 (Some 0), operands = [4, 4]\<rparr>),
              (3, \<lparr>name = ''copy-start'', opcode = kCopyStart,
                    shape = TupleShape [f32_4 (Some 0), f32_4 (Some 5), ArrayShape U32 [] (Some \<lparr>memory_space = 0\<rparr>)],
                    operands = [0]\<rparr>),
              (4, \<lparr>name = ''copy-done'', opcode = kCopyDone, shape = f32_4 (Some 0), operands = [3]\<rparr>),
              (5, \<lparr>name = ''copy-start'', opcode = kCopyStart,
                    shape = TupleShape [f32_4 (Some 0), f32_4 (Some 5), ArrayShape U32 [] (Some \<lparr>memory_space = 0\<rparr>)],
                    operands = [0]\<rparr>),
              (6, \<lparr>name = ''copy-done'', opcode = kCopyDone, shape = f32_4 (Some 0), operands = [5]\<rparr>)],
           root_instruction = 2, IsFusionComputation = False\<rparr>]\<rparr>)"
  unfolding run_copy_example by (simp add: pass_defs f32_4_def)

text \<open>
  A pass that fails after it has rewritten: the copy is visited and rewritten before the
  dynamic-slice without layout stops the walk.
\<close>

theorem partial_mutation_counterexample:
  "fst (Run 5 \<lparr>computations = [copy_then_slice_computation]\<rparr>) =
     Inl (InternalError ''ds.3 does not have a layout.'') \<and>
   snd (Run 5 \<lparr>computations = [copy_then_slice_computation]\<rparr>) \<noteq>
     \<lparr>computations = [copy_then_slice_computation]\<rparr> \<and>
   concat (map (map fst \<circ> instructions)
     (computations (snd (Run 5 \<lparr>computations = [copy_then_slice_computation]\<rparr>)))) =
     [0, 1, 2, 3, 4, 5]"
  by (simp add: pass_defs copy_then_slice_computation_def f32_4_def)

lemma missing_layout_decide:
  assumes "missing_layout c instr"
  shows "decide host c instr = Fail"
proof -
  consider (ds) "opcode instr = kDynamicSlice" | (dus) "opcode instr = kDynamicUpdateSlice"
    | (copy) "opcode instr = kCopy"
    using assms by (cases "opcode instr") (simp_all add: missing_layout_def)
  then show ?thesis
  proof cases
    case ds
    with assms show ?thesis
      by (auto simp: missing_layout_def decide_def decide_on_def operand_layout_def has_layout_def
          split: option.splits)
  next
    case dus
    with assms show ?thesis
      by (auto simp: missing_layout_def decide_def decide_on_def operand_layout_def has_layout_def
          simp del: One_nat_def split: option.splits)
  next
    case copy
    with assms show ?thesis
      by (auto simp: missing_layout_def decide_def decide_on_def operand_layout_def has_layout_def
          split: option.splits)
  qed
qed

lemma VisitAll_fails:
  assumes "\<exists>j\<in>set js. \<exists>u. find_instruction (parent st) j = Some u \<and> decide host (parent st) u = Fail"
  shows "fst (VisitAll host js st) \<noteq> OkStatus"
  using assms
proof (induction js arbitrary: st)
  case Nil
  then show ?case by simp
next
  case (Cons x js)
  obtain s st1 where v: "Visit host x st = (s, st1)" by (cases "Visit host x st")
  show ?case
  proof (cases "s = OkStatus")
    case False
    with v have "VisitAll host (x # js) st = (s, st1)" by (cases s) simp_all
    with False show ?thesis by simp
  next
    case True
    note v = v[unfolded True]
    from v obtain X where f: "find_instruction (parent st) x = Some X" by (rule Visit_ok_present)
    note sm = Visit_step[OF f, of host, unfolded v]
    from Cons.prems obtain j u where j: "j \<in> set (x # js)"
      and u: "find_instruction (parent st) j = Some u" and fl: "decide host (parent st) u = Fail"
      by blast
    have xf: "decide host (parent st) X \<noteq> Fail"
      using sm by (auto simp: step_matches_def)
    with f u fl have jx: "j \<noteq> x" by auto
    with j have jjs: "j \<in> set js" by simp
    have "\<exists>j\<in>set js. \<exists>u. find_instruction (parent st1) j = Some u \<and>
        decide host (parent st1) u = Fail"
    proof (cases "decide host (parent st) X")
      case Skip
      with sm have "st1 = st" by (simp add: step_matches_def)
      with jjs u fl show ?thesis by blast
    next
      case Fail
      with xf show ?thesis by simp
    next
      case RewriteAsync
      with sm obtain s' S d D where ok: "splice_ok (parent st) x X s' S d D"
        and st1: "st1 = \<lparr>parent = spliced True x s' S d D (parent st), changed' = True\<rparr>"
        by (auto simp: step_matches_def)
      from u jx have "find_instruction (parent st1) j = Some (replace_operand x d u)"
        unfolding st1 by (simp add: spliced_lookup_old)
      moreover have "decide host (parent st1) (replace_operand x d u) = Fail"
        unfolding st1 using decide_spliced[OF ok found_operands_mentioned[OF u], of host True] fl
        by simp
      ultimately show ?thesis using jjs by blast
    next
      case RewriteCopy
      with sm obtain s' S d D where ok: "splice_ok (parent st) x X s' S d D"
        and st1: "st1 = \<lparr>parent = spliced False x s' S d D (parent st), changed' = True\<rparr>"
        by (auto simp: step_matches_def)
      from u have "find_instruction (parent st1) j = Some (replace_operand x d u)"
        unfolding st1 by (simp add: spliced_lookup_old)
      moreover have "decide host (parent st1) (replace_operand x d u) = Fail"
        unfolding st1 using decide_spliced[OF ok found_operands_mentioned[OF u], of host False] fl
        by simp
      ultimately show ?thesis using jjs by blast
    qed
    from Cons.IH[OF this] v show ?thesis by simp
  qed
qed

lemma RunComputations_fails:
  assumes "c \<in> set cs" "\<not> IsFusionComputation c" "find_instruction c j = Some u"
    "decide host c u = Fail"
  shows "fst (RunComputations host cs ch) \<noteq> OkStatus"
  using assms(1)
proof (induction cs arbitrary: ch)
  case Nil
  then show ?case by simp
next
  case (Cons c0 cs)
  show ?case
  proof (cases "IsFusionComputation c0")
    case True
    with Cons.prems assms(2) have "c \<in> set cs" by auto
    from Cons.IH[OF this, of ch] True show ?thesis
      by (cases "RunComputations host cs ch") simp
  next
    case False
    obtain s st where a: "Accept host \<lparr>parent = c0, changed' = ch\<rparr> = (s, st)"
      by (cases "Accept host \<lparr>parent = c0, changed' = ch\<rparr>")
    show ?thesis
    proof (cases "s = OkStatus")
      case False
      with a \<open>\<not> IsFusionComputation c0\<close>
      have "RunComputations host (c0 # cs) ch = (s, parent st # cs, changed' st)"
        by (cases s) simp_all
      with False show ?thesis by simp
    next
      case True
      have "c \<noteq> c0"
      proof
        assume "c = c0"
        with assms(3) have "j \<in> set (map fst (instructions c0))" using found_in_ids by blast
        with assms(3,4) \<open>c = c0\<close>
        have "\<exists>j\<in>set (map fst (instructions c0)). \<exists>u.
            find_instruction (parent \<lparr>parent = c0, changed' = ch\<rparr>) j = Some u \<and>
            decide host (parent \<lparr>parent = c0, changed' = ch\<rparr>) u = Fail"
          by auto
        from VisitAll_fails[OF this] a True show False by (simp add: Accept_def)
      qed
      with Cons.prems have "c \<in> set cs" by simp
      from Cons.IH[OF this, of "changed' st"] a True \<open>\<not> IsFusionComputation c0\<close>
      show ?thesis by (cases "RunComputations host cs (changed' st)") simp
    qed
  qed
qed

lemma Run_fails:
  assumes "c \<in> set (computations module)" "\<not> IsFusionComputation c"
    "find_instruction c j = Some u" "decide host c u = Fail"
  shows "\<exists>e. fst (Run host module) = Inl e \<and> e \<noteq> OkStatus"
proof -
  obtain s cs' ch' where r: "RunComputations host (computations module) False = (s, cs', ch')"
    by (cases "RunComputations host (computations module) False") auto
  from RunComputations_fails[OF assms, of False] r have "s \<noteq> OkStatus" by simp
  with r have "fst (Run host module) = Inl s" by (cases s) (simp_all add: Run_def)
  with \<open>s \<noteq> OkStatus\<close> show ?thesis by blast
qed

lemma operand_named_1:
  "sublist m (n @ [CHR 0x27] @ ''s operand, '' @ m @ '', does not have a layout.'')"
  unfolding sublist_def
  by (rule exI[of _ "n @ [CHR 0x27] @ ''s operand, ''"],
      rule exI[of _ "'', does not have a layout.''"]) simp

lemma operand_named_2:
  "sublist m (n @ [CHR 0x27] @ ''s update, '' @ m @ '', does not have a layout.'')"
  unfolding sublist_def
  by (rule exI[of _ "n @ [CHR 0x27] @ ''s update, ''"],
      rule exI[of _ "'', does not have a layout.''"]) simp

lemma Visit_missing_layout:
  assumes f: "find_instruction (parent st) i = Some instr"
    and ml: "missing_layout (parent st) instr"
  shows "\<exists>msg node. Visit host i st = (InternalError msg, st) \<and>
           suffix '' does not have a layout.'' msg \<and> sublist (name node) msg \<and>
           \<not> has_layout (shape node) \<and>
           (node = instr \<or> (\<exists>k oid. mutable_operand (parent st) instr k = Some (oid, node)))"
proof -
  consider (ds) "opcode instr = kDynamicSlice" | (dus) "opcode instr = kDynamicUpdateSlice"
    | (copy) "opcode instr = kCopy"
    using ml by (cases "opcode instr") (simp_all add: missing_layout_def)
  then show ?thesis
  proof cases
    case ds
    with ml obtain oid base where m: "mutable_operand (parent st) instr 0 = Some (oid, base)"
      and l: "layout (shape instr) = None \<or> layout (shape base) = None"
      by (auto simp: missing_layout_def has_layout_def split: option.splits)
    have v: "Visit host i st = HandleDynamicSlice host i st" using f ds by (simp add: Visit_def)
    have sn: "snd (HandleDynamicSlice host i st) = st"
      using f m l by (rule HandleDynamicSlice_no_mutation_on_error)
    note s = HandleDynamicSlice_status[OF f m, of host]
    show ?thesis
    proof (cases "layout (shape instr) = None")
      case True
      with s sn have "HandleDynamicSlice host i st =
          (InternalError (name instr @ '' does not have a layout.''), st)"
        by (simp add: prod_eq_iff)
      with True show ?thesis unfolding v
        using layout_suffix_1[of "name instr"] by (auto simp: has_layout_def)
    next
      case False
      with l have lb: "layout (shape base) = None" by simp
      with False s sn have "HandleDynamicSlice host i st =
          (InternalError (name instr @ [CHR 0x27] @ ''s operand, '' @ name base @
             '', does not have a layout.''), st)"
        by (simp add: prod_eq_iff)
      moreover have "\<not> has_layout (shape base)" using lb by (simp add: has_layout_def)
      ultimately show ?thesis unfolding v
        using layout_suffix_2[of "name instr" "name base"]
          operand_named_1[of "name base" "name instr"] m by blast
    qed
  next
    case dus
    with ml obtain bid base uid update where
      m0: "mutable_operand (parent st) instr 0 = Some (bid, base)"
      and m1: "mutable_operand (parent st) instr 1 = Some (uid, update)"
      and l: "layout (shape instr) = None \<or> layout (shape base) = None \<or>
              layout (shape update) = None"
      by (auto simp: missing_layout_def has_layout_def simp del: One_nat_def split: option.splits)
    have v: "Visit host i st = HandleDynamicUpdateSlice host i st"
      using f dus by (simp add: Visit_def)
    have sn: "snd (HandleDynamicUpdateSlice host i st) = st"
      using f m0 m1 l by (rule HandleDynamicUpdateSlice_no_mutation_on_error)
    note s = HandleDynamicUpdateSlice_status[OF f m0 m1, of host]
    consider (own) "layout (shape instr) = None"
      | (base) "layout (shape instr) \<noteq> None" "layout (shape base) = None"
      | (update) "layout (shape instr) \<noteq> None" "layout (shape base) \<noteq> None"
          "layout (shape update) = None"
      using l by auto
    then show ?thesis
    proof cases
      case own
      with s sn have "HandleDynamicUpdateSlice host i st =
          (InternalError (name instr @ '' does not have a layout.''), st)"
        by (simp add: prod_eq_iff)
      with own show ?thesis unfolding v
        using layout_suffix_1[of "name instr"] by (auto simp: has_layout_def)
    next
      case base
      with s sn have "HandleDynamicUpdateSlice host i st =
          (InternalError (name instr @ [CHR 0x27] @ ''s operand, '' @ name base @
             '', does not have a layout.''), st)"
        by (simp add: prod_eq_iff)
      moreover have "\<not> has_layout (shape base)" using base by (simp add: has_layout_def)
      ultimately show ?thesis unfolding v
        using layout_suffix_2[of "name instr" "name base"]
          operand_named_1[of "name base" "name instr"] m0 by blast
    next
      case update
      with s sn have "HandleDynamicUpdateSlice host i st =
          (InternalError (name instr @ [CHR 0x27] @ ''s update, '' @ name update @
             '', does not have a layout.''), st)"
        by (simp add: prod_eq_iff)
      moreover have "\<not> has_layout (shape update)" using update by (simp add: has_layout_def)
      ultimately show ?thesis unfolding v
        using layout_suffix_2u[of "name instr" "name update"]
          operand_named_2[of "name update" "name instr"] m1 by blast
    qed
  next
    case copy
    with ml obtain oid operand where m: "mutable_operand (parent st) instr 0 = Some (oid, operand)"
      and l: "layout (shape operand) = None \<or> layout (shape instr) = None"
      by (auto simp: missing_layout_def has_layout_def split: option.splits)
    have v: "Visit host i st = HandleCopy host i st" using f copy by (simp add: Visit_def)
    note h = HandleCopy_missing_layout[OF f m l, of host]
    show ?thesis
    proof (cases "layout (shape operand) = None")
      case True
      have "HandleCopy host i st =
          (InternalError (name operand @ '' does not have a layout.''), st)"
        unfolding h by (simp add: True)
      moreover have "\<not> has_layout (shape operand)" using True by (simp add: has_layout_def)
      ultimately show ?thesis unfolding v
        using layout_suffix_1[of "name operand"] m
        by (metis sublist_append_rightI)
    next
      case False
      with l have li: "layout (shape instr) = None" by simp
      have "HandleCopy host i st =
          (InternalError (name instr @ '' does not have a layout.''), st)"
        unfolding h by (simp only: False if_False)
      moreover have "\<not> has_layout (shape instr)" using li by (simp add: has_layout_def)
      ultimately show ?thesis unfolding v
        using layout_suffix_1[of "name instr"]
        by (metis sublist_append_rightI)
    qed
  qed
qed

text \<open>
  C4 (as amended). The handler that meets a slice, update or copy instruction whose result
  shape, or the shape of an operand it checks, has no layout returns a missing-layout
  internal error that names the node lacking the layout, and mutates nothing: the walk
  stops there with the graph as it was when that handler was entered. If a non-fusion
  computation of the program holds such an instruction, the pass fails. Rewrites made
  for instructions visited earlier stay in the program.
\<close>

theorem missing_layout_aborts_pass:
  "(find_instruction (parent st) i = Some instr \<and> missing_layout (parent st) instr \<longrightarrow>
      (\<exists>msg node. Visit host i st = (InternalError msg, st) \<and>
         VisitAll host (i # rest) st = (InternalError msg, st) \<and>
         suffix '' does not have a layout.'' msg \<and> sublist (name node) msg \<and>
         \<not> has_layout (shape node) \<and>
         (node = instr \<or> (\<exists>k oid. mutable_operand (parent st) instr k = Some (oid, node))))) \<and>
   (c \<in> set (computations module) \<and> \<not> IsFusionComputation c \<and>
    find_instruction c j = Some u \<and> missing_layout c u \<longrightarrow>
      (\<exists>e. fst (Run host module) = Inl e \<and> e \<noteq> OkStatus))"
proof (intro conjI impI)
  assume "find_instruction (parent st) i = Some instr \<and> missing_layout (parent st) instr"
  then have f: "find_instruction (parent st) i = Some instr"
    and ml: "missing_layout (parent st) instr" by simp_all
  from Visit_missing_layout[OF f ml, of host] obtain msg node where
    v: "Visit host i st = (InternalError msg, st)"
    and r: "suffix '' does not have a layout.'' msg" "sublist (name node) msg"
      "\<not> has_layout (shape node)"
      "node = instr \<or> (\<exists>k oid. mutable_operand (parent st) instr k = Some (oid, node))"
    by blast
  from v have "VisitAll host (i # rest) st = (InternalError msg, st)" by simp
  with v r show "\<exists>msg node. Visit host i st = (InternalError msg, st) \<and>
         VisitAll host (i # rest) st = (InternalError msg, st) \<and>
         suffix '' does not have a layout.'' msg \<and> sublist (name node) msg \<and>
         \<not> has_layout (shape node) \<and>
         (node = instr \<or> (\<exists>k oid. mutable_operand (parent st) instr k = Some (oid, node)))"
    by blast
next
  assume "c \<in> set (computations module) \<and> \<not> IsFusionComputation c \<and>
    find_instruction c j = Some u \<and> missing_layout c u"
  then have a: "c \<in> set (computations module)" "\<not> IsFusionComputation c"
    "find_instruction c j = Some u" "missing_layout c u" by simp_all
  from a(4) have "decide host c u = Fail" by (rule missing_layout_decide)
  with a(1-3) show "\<exists>e. fst (Run host module) = Inl e \<and> e \<noteq> OkStatus" by (rule Run_fails)
qed

theorem missing_layout_aborts_pass_witness:
  "find_instruction (update_computation None) 3 =
     Some \<lparr>name = ''dus.3'', opcode = kDynamicUpdateSlice, shape = f32_4 (Some 5),
            operands = [0, 1, 2]\<rparr> \<and>
   missing_layout (update_computation None)
     \<lparr>name = ''dus.3'', opcode = kDynamicUpdateSlice, shape = f32_4 (Some 5),
       operands = [0, 1, 2]\<rparr> \<and>
   (\<exists>msg. Visit 5 3 \<lparr>parent = update_computation None, changed' = False\<rparr> =
           (InternalError msg, \<lparr>parent = update_computation None, changed' = False\<rparr>) \<and>
         suffix '' does not have a layout.'' msg) \<and>
   (\<exists>e. fst (Run 5 \<lparr>computations = [update_computation None]\<rparr>) = Inl e \<and> e \<noteq> OkStatus)"
proof -
  let ?dus = "\<lparr>name = ''dus.3'', opcode = kDynamicUpdateSlice, shape = f32_4 (Some 5),
            operands = [0, 1, 2]\<rparr>"
  let ?st = "\<lparr>parent = update_computation None, changed' = False\<rparr>"
  have f: "find_instruction (update_computation None) 3 = Some ?dus"
    by (simp add: find_instruction_def update_computation_def)
  have ml: "missing_layout (update_computation None) ?dus"
    by (simp add: missing_layout_def mutable_operand_def find_instruction_def
        update_computation_def has_layout_def f32_4_def)
  note t = missing_layout_aborts_pass
    [where st = ?st and i = 3 and instr = ?dus and host = 5 and c = "update_computation None"
      and module = "\<lparr>computations = [update_computation None]\<rparr>" and j = 3 and u = ?dus]
  from t f ml have a: "\<exists>msg. Visit 5 3 ?st = (InternalError msg, ?st) \<and>
         suffix '' does not have a layout.'' msg" by auto
  have nf: "\<not> IsFusionComputation (update_computation None)"
    by (simp add: update_computation_def)
  from t f ml nf have b: "\<exists>e. fst (Run 5 \<lparr>computations = [update_computation None]\<rparr>) = Inl e \<and>
      e \<noteq> OkStatus" by simp
  from f ml a b show ?thesis by blast
qed

text \<open>Whether some instruction of a computation is a copy the pass rewrites.\<close>

lemma VisitAll_keeps_transfer_copies:
  assumes "VisitAll host js st = (OkStatus, st')"
    and "\<forall>j u. find_instruction (parent st) j = Some u \<longrightarrow> j \<notin> set js \<longrightarrow>
           decide host (parent st) u \<in> {Skip, RewriteCopy}"
  shows "(\<forall>j u. find_instruction (parent st') j = Some u \<longrightarrow>
            decide host (parent st') u \<in> {Skip, RewriteCopy}) \<and>
         ((\<exists>j u. find_instruction (parent st') j = Some u \<and> decide host (parent st') u = RewriteCopy)
            \<longleftrightarrow> (\<exists>j u. find_instruction (parent st) j = Some u \<and>
                   decide host (parent st) u = RewriteCopy))"
  using assms
proof (induction js arbitrary: st)
  case Nil
  then show ?case by simp
next
  case (Cons x js)
  from Cons.prems(1) obtain st1 where
    v: "Visit host x st = (OkStatus, st1)" and r: "VisitAll host js st1 = (OkStatus, st')"
    by (rule VisitAll_Cons_ok)
  from v obtain X where f: "find_instruction (parent st) x = Some X" by (rule Visit_ok_present)
  note sm = Visit_step[OF f, of host, unfolded v]
  have xf: "decide host (parent st) X \<noteq> Fail" using sm by (auto simp: step_matches_def)
  show ?case
  proof (cases "decide host (parent st) X = Skip")
    case True
    with sm have st1: "st1 = st" by (simp add: step_matches_def)
    have "\<forall>j u. find_instruction (parent st) j = Some u \<longrightarrow> j \<notin> set js \<longrightarrow>
           decide host (parent st) u \<in> {Skip, RewriteCopy}"
      using Cons.prems(2) f True by (metis insertI1 option.inject set_ConsD)
    from Cons.IH[OF r[unfolded st1] this] show ?thesis .
  next
    case False
    define rm where "rm = (decide host (parent st) X = RewriteAsync)"
    from False xf sm obtain s S d D where ok: "splice_ok (parent st) x X s S d D"
      and st1: "st1 = \<lparr>parent = spliced rm x s S d D (parent st), changed' = True\<rparr>"
      unfolding rm_def by (cases "decide host (parent st) X") (auto simp: step_matches_def)
    have xr: "rm \<longrightarrow> decide host (parent st) X \<noteq> RewriteCopy" by (simp add: rm_def)
    have p1: "\<forall>j u. find_instruction (parent st1) j = Some u \<longrightarrow> j \<notin> set js \<longrightarrow>
           decide host (parent st1) u \<in> {Skip, RewriteCopy}"
    proof (intro allI impI)
      fix j u'
      assume a: "find_instruction (parent st1) j = Some u'" and nj: "j \<notin> set js"
      from a have a': "find_instruction (spliced rm x s S d D (parent st)) j = Some u'"
        by (simp add: st1)
      from decide_after_splice[OF ok a', of host]
      show "decide host (parent st1) u' \<in> {Skip, RewriteCopy}"
      proof
        assume "decide host (spliced rm x s S d D (parent st)) u' = Skip"
        then show ?thesis by (simp add: st1)
      next
        assume "\<exists>u. find_instruction (parent st) j = Some u \<and> \<not> (rm \<and> j = x) \<and>
              decide host (spliced rm x s S d D (parent st)) u' = decide host (parent st) u"
        then obtain u where u: "find_instruction (parent st) j = Some u" "\<not> (rm \<and> j = x)"
          "decide host (spliced rm x s S d D (parent st)) u' = decide host (parent st) u"
          by auto
        show ?thesis
        proof (cases "j = x")
          case True
          with u f have "u = X" "\<not> rm" by simp_all
          with False xf have "decide host (parent st) u = RewriteCopy"
            unfolding rm_def by (cases "decide host (parent st) X") simp_all
          with u(3) show ?thesis by (simp add: st1)
        next
          case False
          with nj have "j \<notin> set (x # js)" by simp
          with Cons.prems(2) u(1) have "decide host (parent st) u \<in> {Skip, RewriteCopy}" by blast
          with u(3) show ?thesis by (simp add: st1)
        qed
      qed
    qed
    have p2: "(\<exists>j u. find_instruction (parent st1) j = Some u \<and>
                 decide host (parent st1) u = RewriteCopy)
          \<longleftrightarrow> (\<exists>j u. find_instruction (parent st) j = Some u \<and>
                 decide host (parent st) u = RewriteCopy)"
    proof
      assume "\<exists>j u. find_instruction (parent st1) j = Some u \<and>
                 decide host (parent st1) u = RewriteCopy"
      then obtain j u' where a: "find_instruction (spliced rm x s S d D (parent st)) j = Some u'"
        and c: "decide host (spliced rm x s S d D (parent st)) u' = RewriteCopy"
        by (auto simp: st1)
      from decide_after_splice[OF ok a, of host] c
      have "\<exists>u. find_instruction (parent st) j = Some u \<and> \<not> (rm \<and> j = x) \<and>
              decide host (spliced rm x s S d D (parent st)) u' = decide host (parent st) u"
        by simp
      then obtain u where "find_instruction (parent st) j = Some u"
        "decide host (spliced rm x s S d D (parent st)) u' = decide host (parent st) u"
        by (elim exE conjE)
      with c have "find_instruction (parent st) j = Some u \<and>
          decide host (parent st) u = RewriteCopy" by simp
      then show "\<exists>j u. find_instruction (parent st) j = Some u \<and>
                 decide host (parent st) u = RewriteCopy" by (intro exI)
    next
      assume "\<exists>j u. find_instruction (parent st) j = Some u \<and>
                 decide host (parent st) u = RewriteCopy"
      then obtain j u where u: "find_instruction (parent st) j = Some u"
        and c: "decide host (parent st) u = RewriteCopy" by blast
      have nr: "\<not> (rm \<and> j = x)" using xr u f c by auto
      from spliced_lookup_old[OF u nr, of s S d D]
      have "find_instruction (parent st1) j = Some (replace_operand x d u)" by (simp add: st1)
      moreover have "decide host (parent st1) (replace_operand x d u) = RewriteCopy"
        unfolding st1 using decide_spliced[OF ok found_operands_mentioned[OF u], of host rm] c
        by simp
      ultimately show "\<exists>j u. find_instruction (parent st1) j = Some u \<and>
                 decide host (parent st1) u = RewriteCopy" by blast
    qed
    from Cons.IH[OF r p1] p2 show ?thesis by simp
  qed
qed

lemma VisitAll_semi_settled:
  assumes "\<forall>j u. find_instruction (parent st) j = Some u \<longrightarrow>
             decide host (parent st) u \<in> {Skip, RewriteCopy}"
    and "\<forall>j\<in>set js. find_instruction (parent st) j \<noteq> None"
  shows "\<exists>st'. VisitAll host js st = (OkStatus, st') \<and>
           changed' st' = (changed' st \<or>
             (\<exists>j\<in>set js. \<exists>u. find_instruction (parent st) j = Some u \<and>
                 decide host (parent st) u = RewriteCopy)) \<and>
           IsFusionComputation (parent st') = IsFusionComputation (parent st)"
  using assms
proof (induction js arbitrary: st)
  case Nil
  show ?case by simp
next
  case (Cons x js)
  from Cons.prems(2) obtain X where f: "find_instruction (parent st) x = Some X" by auto
  note sm = Visit_step[OF f, of host]
  from Cons.prems(1) f have dx: "decide host (parent st) X \<in> {Skip, RewriteCopy}" by blast
  show ?case
  proof (cases "decide host (parent st) X = Skip")
    case True
    with sm have v: "Visit host x st = (OkStatus, st)" by (simp add: step_matches_def)
    from Cons.prems(2) have vis: "\<forall>j\<in>set js. find_instruction (parent st) j \<noteq> None" by simp
    from Cons.IH[OF Cons.prems(1) vis] obtain st' where
      r: "VisitAll host js st = (OkStatus, st')"
      and c: "changed' st' = (changed' st \<or>
             (\<exists>j\<in>set js. \<exists>u. find_instruction (parent st) j = Some u \<and>
                 decide host (parent st) u = RewriteCopy))"
      and fl: "IsFusionComputation (parent st') = IsFusionComputation (parent st)"
      by (elim exE conjE)
    have "(\<exists>j\<in>set (x # js). \<exists>u. find_instruction (parent st) j = Some u \<and>
                 decide host (parent st) u = RewriteCopy) \<longleftrightarrow>
          (\<exists>j\<in>set js. \<exists>u. find_instruction (parent st) j = Some u \<and>
                 decide host (parent st) u = RewriteCopy)"
      using f True by auto
    with v r c fl show ?thesis by simp
  next
    case False
    with dx have rc: "decide host (parent st) X = RewriteCopy" by simp
    with sm obtain s S d D where ok: "splice_ok (parent st) x X s S d D"
      and v: "Visit host x st =
        (OkStatus, \<lparr>parent = spliced False x s S d D (parent st), changed' = True\<rparr>)"
      by (auto simp: step_matches_def)
    define st1 where "st1 = \<lparr>parent = spliced False x s S d D (parent st), changed' = True\<rparr>"
    have semi: "\<forall>j u. find_instruction (parent st1) j = Some u \<longrightarrow>
             decide host (parent st1) u \<in> {Skip, RewriteCopy}"
    proof (intro allI impI)
      fix j u'
      assume "find_instruction (parent st1) j = Some u'"
      then have a: "find_instruction (spliced False x s S d D (parent st)) j = Some u'"
        by (simp add: st1_def)
      from decide_after_splice[OF ok a, of host]
      show "decide host (parent st1) u' \<in> {Skip, RewriteCopy}"
      proof
        assume "decide host (spliced False x s S d D (parent st)) u' = Skip"
        then show ?thesis by (simp add: st1_def)
      next
        assume "\<exists>u. find_instruction (parent st) j = Some u \<and> \<not> (False \<and> j = x) \<and>
              decide host (spliced False x s S d D (parent st)) u' = decide host (parent st) u"
        then obtain u where "find_instruction (parent st) j = Some u"
          "decide host (spliced False x s S d D (parent st)) u' = decide host (parent st) u"
          by auto
        with Cons.prems(1) show ?thesis by (simp add: st1_def)
      qed
    qed
    have vis: "\<forall>j\<in>set js. find_instruction (parent st1) j \<noteq> None"
    proof
      fix j assume "j \<in> set js"
      with Cons.prems(2) obtain u where "find_instruction (parent st) j = Some u" by auto
      then have "find_instruction (spliced False x s S d D (parent st)) j =
          Some (replace_operand x d u)" by (simp add: spliced_lookup_old)
      then show "find_instruction (parent st1) j \<noteq> None" by (simp add: st1_def)
    qed
    from Cons.IH[OF semi vis] obtain st' where
      r: "VisitAll host js st1 = (OkStatus, st')"
      and c: "changed' st'" and fl: "IsFusionComputation (parent st') = IsFusionComputation (parent st1)"
      by (auto simp: st1_def)
    have "IsFusionComputation (parent st1) = IsFusionComputation (parent st)"
      by (simp add: st1_def spliced_def)
    moreover have "\<exists>j\<in>set (x # js). \<exists>u. find_instruction (parent st) j = Some u \<and>
                 decide host (parent st) u = RewriteCopy"
      using f rc by auto
    ultimately show ?thesis using v r c fl unfolding st1_def by simp
  qed
qed

lemma Accept_second:
  assumes a: "Accept host \<lparr>parent = c, changed' = ch\<rparr> = (OkStatus, st)"
  shows "\<exists>st2. Accept host \<lparr>parent = parent st, changed' = ch2\<rparr> = (OkStatus, st2) \<and>
           changed' st2 = (ch2 \<or> (\<exists>j u. find_instruction c j = Some u \<and>
                                      decide host c u = RewriteCopy)) \<and>
           IsFusionComputation (parent st2) = IsFusionComputation c \<and>
           IsFusionComputation (parent st) = IsFusionComputation c"
proof -
  from a have v: "VisitAll host (map fst (instructions c)) \<lparr>parent = c, changed' = ch\<rparr> =
      (OkStatus, st)" by (simp add: Accept_def)
  have pre: "\<forall>j u. find_instruction (parent \<lparr>parent = c, changed' = ch\<rparr>) j = Some u \<longrightarrow>
      j \<notin> set (map fst (instructions c)) \<longrightarrow>
      decide host (parent \<lparr>parent = c, changed' = ch\<rparr>) u \<in> {Skip, RewriteCopy}"
    using found_in_ids by fastforce
  from VisitAll_keeps_transfer_copies[OF v pre]
  have semi: "\<forall>j u. find_instruction (parent st) j = Some u \<longrightarrow>
            decide host (parent st) u \<in> {Skip, RewriteCopy}"
    and rc: "(\<exists>j u. find_instruction (parent st) j = Some u \<and> decide host (parent st) u = RewriteCopy)
            \<longleftrightarrow> (\<exists>j u. find_instruction c j = Some u \<and> decide host c u = RewriteCopy)"
    by simp_all
  from VisitAll_fusion_flag[OF v] have fl: "IsFusionComputation (parent st) = IsFusionComputation c"
    by simp
  define st0 where "st0 = \<lparr>parent = parent st, changed' = ch2\<rparr>"
  have semi0: "\<forall>j u. find_instruction (parent st0) j = Some u \<longrightarrow>
             decide host (parent st0) u \<in> {Skip, RewriteCopy}"
    using semi by (simp add: st0_def)
  have vis0: "\<forall>j\<in>set (map fst (instructions (parent st0))). find_instruction (parent st0) j \<noteq> None"
    by (simp add: find_instruction_def map_of_eq_None_iff)
  from VisitAll_semi_settled[OF semi0 vis0] obtain st2 where
    r: "VisitAll host (map fst (instructions (parent st0))) st0 = (OkStatus, st2)"
    and c: "changed' st2 = (changed' st0 \<or>
             (\<exists>j\<in>set (map fst (instructions (parent st0))). \<exists>u.
                 find_instruction (parent st0) j = Some u \<and>
                 decide host (parent st0) u = RewriteCopy))"
    and f2: "IsFusionComputation (parent st2) = IsFusionComputation (parent st0)"
    by (elim exE conjE)
  have "(\<exists>j\<in>set (map fst (instructions (parent st0))). \<exists>u.
                 find_instruction (parent st0) j = Some u \<and>
                 decide host (parent st0) u = RewriteCopy) \<longleftrightarrow>
        (\<exists>j u. find_instruction (parent st) j = Some u \<and> decide host (parent st) u = RewriteCopy)"
    unfolding st0_def using found_in_ids by fastforce
  with c rc have "changed' st2 = (ch2 \<or> (\<exists>j u. find_instruction c j = Some u \<and>
                                      decide host c u = RewriteCopy))"
    by (simp add: st0_def)
  moreover have "Accept host \<lparr>parent = parent st, changed' = ch2\<rparr> = (OkStatus, st2)"
    using r by (simp add: Accept_def st0_def)
  moreover have "IsFusionComputation (parent st2) = IsFusionComputation c"
    using f2 fl by (simp add: st0_def)
  ultimately show ?thesis using fl by blast
qed

lemma RunComputations_second_changed:
  assumes "RunComputations host cs ch = (OkStatus, cs', ch')"
  shows "\<exists>cs''. RunComputations host cs' ch2 =
           (OkStatus, cs'',
            ch2 \<or> (\<exists>c\<in>set cs. \<not> IsFusionComputation c \<and>
                     (\<exists>j u. find_instruction c j = Some u \<and> decide host c u = RewriteCopy)))"
  using assms
proof (induction cs arbitrary: ch cs' ch' ch2)
  case Nil
  then show ?case by simp
next
  case (Cons c cs)
  show ?case
  proof (cases "IsFusionComputation c")
    case True
    obtain s rest' ch1 where r: "RunComputations host cs ch = (s, rest', ch1)"
      by (cases "RunComputations host cs ch") auto
    with Cons.prems True have s: "s = OkStatus" and cs': "cs' = c # rest'" by simp_all
    from Cons.IH[OF r[unfolded s], of ch2] obtain cs'' where
      "RunComputations host rest' ch2 =
         (OkStatus, cs'',
          ch2 \<or> (\<exists>c\<in>set cs. \<not> IsFusionComputation c \<and>
                   (\<exists>j u. find_instruction c j = Some u \<and> decide host c u = RewriteCopy)))"
      by (elim exE)
    with True cs' show ?thesis by simp
  next
    case False
    obtain s st where a: "Accept host \<lparr>parent = c, changed' = ch\<rparr> = (s, st)"
      by (cases "Accept host \<lparr>parent = c, changed' = ch\<rparr>")
    have sok: "s = OkStatus"
    proof (rule ccontr)
      assume "s \<noteq> OkStatus"
      with a False have "RunComputations host (c # cs) ch = (s, parent st # cs, changed' st)"
        by (cases s) simp_all
      with Cons.prems \<open>s \<noteq> OkStatus\<close> show False by simp
    qed
    obtain s2 rest' ch1 where r: "RunComputations host cs (changed' st) = (s2, rest', ch1)"
      by (cases "RunComputations host cs (changed' st)") auto
    with Cons.prems False a sok have s2: "s2 = OkStatus" and cs': "cs' = parent st # rest'"
      by simp_all
    from Accept_second[OF a[unfolded sok], of ch2] obtain st2 where
      a2: "Accept host \<lparr>parent = parent st, changed' = ch2\<rparr> = (OkStatus, st2)"
      and c2: "changed' st2 = (ch2 \<or> (\<exists>j u. find_instruction c j = Some u \<and>
                                      decide host c u = RewriteCopy))"
      and fl: "IsFusionComputation (parent st) = IsFusionComputation c"
      by (elim exE conjE)
    from Cons.IH[OF r[unfolded s2], of "changed' st2"] obtain cs'' where
      r2: "RunComputations host rest' (changed' st2) =
         (OkStatus, cs'',
          changed' st2 \<or> (\<exists>c\<in>set cs. \<not> IsFusionComputation c \<and>
                   (\<exists>j u. find_instruction c j = Some u \<and> decide host c u = RewriteCopy)))"
      by (elim exE)
    have A: "RunComputations host cs' ch2 =
        (OkStatus, parent st2 # cs'',
         changed' st2 \<or> (\<exists>c\<in>set cs. \<not> IsFusionComputation c \<and>
                   (\<exists>j u. find_instruction c j = Some u \<and> decide host c u = RewriteCopy)))"
      unfolding cs' using False fl a2 r2 by simp
    have B: "(changed' st2 \<or> (\<exists>c\<in>set cs. \<not> IsFusionComputation c \<and>
                   (\<exists>j u. find_instruction c j = Some u \<and> decide host c u = RewriteCopy))) =
        (ch2 \<or> (\<exists>c\<in>set (c # cs). \<not> IsFusionComputation c \<and>
                   (\<exists>j u. find_instruction c j = Some u \<and> decide host c u = RewriteCopy)))"
      unfolding c2 using False by auto
    from A[unfolded B] show ?thesis by (rule exI)
  qed
qed

lemma has_transfer_copy_iff:
  "has_transfer_copy host module \<longleftrightarrow>
     (\<exists>c\<in>set (computations module). \<not> IsFusionComputation c \<and>
        (\<exists>j u. find_instruction c j = Some u \<and> decide host c u = RewriteCopy))"
proof -
  have "\<And>c. list_ex (\<lambda>(j, u). find_instruction c j = Some u \<and> transfer_copy host c u)
          (instructions c) \<longleftrightarrow>
        (\<exists>j u. find_instruction c j = Some u \<and> decide host c u = RewriteCopy)"
    unfolding list_ex_iff transfer_copy_decide
    by (auto dest: find_instruction_in)
  then show ?thesis by (simp add: has_transfer_copy_def list_ex_iff)
qed

lemma Run_second_unchanged:
  assumes "Run host module = (Inr changed, module')"
    and "\<not> has_transfer_copy host module"
  shows "Run host module' = (Inr False, module')"
proof -
  obtain s cs' ch' where r: "RunComputations host (computations module) False = (s, cs', ch')"
    by (cases "RunComputations host (computations module) False") auto
  have sok: "s = OkStatus"
  proof (rule ccontr)
    assume "s \<noteq> OkStatus"
    with r have "fst (Run host module) = Inl s" by (cases s) (simp_all add: Run_def)
    with assms(1) show False by simp
  qed
  from r sok assms(1) have m': "module' = module\<lparr>computations := cs'\<rparr>"
    by (simp add: Run_def)
  have nc: "\<forall>c\<in>set (computations module). \<not> IsFusionComputation c \<longrightarrow>
           (\<forall>j u. find_instruction c j = Some u \<longrightarrow> decide host c u \<noteq> RewriteCopy)"
    using assms(2) unfolding has_transfer_copy_iff by blast
  from RunComputations_second[OF r[unfolded sok] nc, of False]
  have "RunComputations host cs' False = (OkStatus, cs', False)" .
  then show ?thesis unfolding m' by (simp add: Run_def)
qed

text \<open>
  The second run in general. On every program on which the pass runs successfully, a
  second run on the resulting program succeeds as well, and it returns changed = true
  exactly when a non-fusion computation of the program holds a copy between host memory
  and device memory, the copy that the first run rewrites and leaves in the computation.
  On a program without such a copy the second run performs no rewrite and leaves the
  program as it is.
\<close>

lemma second_run_changed_iff_transfer_copy:
  assumes "Run host module = (Inr changed, module')"
  shows "\<exists>module''. Run host module' = (Inr (has_transfer_copy host module), module'') \<and>
           (\<not> has_transfer_copy host module \<longrightarrow> module'' = module')"
proof (cases "has_transfer_copy host module")
  case False
  from Run_second_unchanged[OF assms False] False show ?thesis by simp
next
  case True
  obtain s cs' ch' where r: "RunComputations host (computations module) False = (s, cs', ch')"
    by (cases "RunComputations host (computations module) False") auto
  have sok: "s = OkStatus"
  proof (rule ccontr)
    assume "s \<noteq> OkStatus"
    with r have "fst (Run host module) = Inl s" by (cases s) (simp_all add: Run_def)
    with assms show False by simp
  qed
  from r sok assms have m': "module' = module\<lparr>computations := cs'\<rparr>"
    by (simp add: Run_def)
  from RunComputations_second_changed[OF r[unfolded sok], of False] True obtain cs'' where
    "RunComputations host cs' False = (OkStatus, cs'', True)"
    unfolding has_transfer_copy_iff by auto
  then have "Run host module' = (Inr True, module'\<lparr>computations := cs''\<rparr>)"
    unfolding m' by (simp add: Run_def)
  with True show ?thesis by simp
qed

lemma second_run_changed_iff_transfer_copy_example:
  "fst (Run 5 \<lparr>computations = [slice_computation]\<rparr>) = Inr True \<and>
   \<not> has_transfer_copy 5 \<lparr>computations = [slice_computation]\<rparr> \<and>
   Run 5 (snd (Run 5 \<lparr>computations = [slice_computation]\<rparr>)) =
     (Inr False, snd (Run 5 \<lparr>computations = [slice_computation]\<rparr>))"
proof -
  have r: "Run 5 \<lparr>computations = [slice_computation]\<rparr> =
      (Inr True, snd (Run 5 \<lparr>computations = [slice_computation]\<rparr>))"
    by (simp add: run_slice_example)
  have a: "fst (Run 5 \<lparr>computations = [slice_computation]\<rparr>) = Inr True"
    by (simp add: run_slice_example)
  have h: "\<not> has_transfer_copy 5 \<lparr>computations = [slice_computation]\<rparr>"
    by (simp add: has_transfer_copy_def slice_computation_def transfer_copy_def)
  from second_run_changed_iff_transfer_copy[OF r] h
  have b: "Run 5 (snd (Run 5 \<lparr>computations = [slice_computation]\<rparr>)) =
     (Inr False, snd (Run 5 \<lparr>computations = [slice_computation]\<rparr>))" by auto
  from a h b show ?thesis by (intro conjI)
qed

end
